theory Spec2Isabelle
  imports Main "HOL-Library.Word" "HOL-Library.Sublist"
begin

section \<open>Go strings and runes\<close>

text \<open>
  A Go string is a sequence of bytes: \<^typ>\<open>string\<close>, a list of \<^typ>\<open>char\<close>, each
  \<^typ>\<open>char\<close> one byte. A rune is a Unicode code point, here a \<^typ>\<open>nat\<close>; the
  end-of-input marker \<^verbatim>\<open>eof\<close> of package \<^verbatim>\<open>fmt\<close> is \<open>None\<close> of \<open>rune option\<close>.
\<close>

type_synonym rune = nat

abbreviation CR :: char where
  "CR \<equiv> CHR 0x0D"

abbreviation NL :: char where
  "NL \<equiv> CHR 0x0A"

definition RuneError :: rune where
  "RuneError = 0xFFFD"

text \<open>
  \<^verbatim>\<open>unicode/utf8\<close>: the table \<^verbatim>\<open>first\<close> with \<^verbatim>\<open>acceptRanges\<close>, for a lead byte
  \<open>\<ge> 0x80\<close>. \<open>None\<close> is the entry \<^verbatim>\<open>xx\<close> (an invalid lead byte); \<open>Some (sz, lo, hi)\<close>
  is the length of the sequence and the range accepted for its second byte.
\<close>

definition first :: "nat \<Rightarrow> (nat \<times> nat \<times> nat) option" where
  "first p0 =
     (if p0 < 0xC2 then None
      else if p0 < 0xE0 then Some (2, 0x80, 0xBF)
      else if p0 = 0xE0 then Some (3, 0xA0, 0xBF)
      else if p0 < 0xED then Some (3, 0x80, 0xBF)
      else if p0 = 0xED then Some (3, 0x80, 0x9F)
      else if p0 < 0xF0 then Some (3, 0x80, 0xBF)
      else if p0 = 0xF0 then Some (4, 0x90, 0xBF)
      else if p0 < 0xF4 then Some (4, 0x80, 0xBF)
      else if p0 = 0xF4 then Some (4, 0x80, 0x8F)
      else None)"

text \<open>
  \<^verbatim>\<open>utf8.DecodeRuneInString\<close>: the first rune of a non-empty string and the number of
  bytes it takes. An invalid or short sequence is \<^const>\<open>RuneError\<close> of width 1. The masks
  \<^verbatim>\<open>mask2\<close>, \<^verbatim>\<open>mask3\<close>, \<^verbatim>\<open>mask4\<close>, \<^verbatim>\<open>maskx\<close> are the remainders modulo 32, 16, 8, 64.
\<close>

definition cont :: "nat \<Rightarrow> bool" where
  "cont b \<longleftrightarrow> 0x80 \<le> b \<and> b \<le> 0xBF"

fun DecodeRune :: "string \<Rightarrow> rune \<times> nat" where
  "DecodeRune [] = (RuneError, 0)"
| "DecodeRune (c0 # p) =
     (let p0 = of_char c0 in
      if p0 < 0x80 then (p0, 1)
      else case first p0 of
        None \<Rightarrow> (RuneError, 1)
      | Some (sz, lo, hi) \<Rightarrow>
          if length (c0 # p) < sz then (RuneError, 1)
          else let b1 = of_char (p ! 0) in
          if b1 < lo \<or> hi < b1 then (RuneError, 1)
          else if sz \<le> 2 then ((p0 mod 32) * 64 + b1 mod 64, 2)
          else let b2 = of_char (p ! 1) in
          if \<not> cont b2 then (RuneError, 1)
          else if sz \<le> 3 then ((p0 mod 16) * 4096 + (b1 mod 64) * 64 + b2 mod 64, 3)
          else let b3 = of_char (p ! 2) in
          if \<not> cont b3 then (RuneError, 1)
          else ((p0 mod 8) * 262144 + (b1 mod 64) * 4096 + (b2 mod 64) * 64 + b3 mod 64, 4))"

text \<open>\<^verbatim>\<open>fmt.isSpace\<close>: the table \<^verbatim>\<open>space\<close> of \<^verbatim>\<open>fmt/scan.go\<close>.\<close>

definition isSpace :: "rune \<Rightarrow> bool" where
  "isSpace r \<longleftrightarrow>
     r < 0x10000 \<and>
     ((0x0009 \<le> r \<and> r \<le> 0x000D) \<or> r = 0x0020 \<or> r = 0x0085 \<or> r = 0x00A0 \<or> r = 0x1680 \<or>
      (0x2000 \<le> r \<and> r \<le> 0x200A) \<or> (0x2028 \<le> r \<and> r \<le> 0x2029) \<or> r = 0x202F \<or>
      r = 0x205F \<or> r = 0x3000)"

definition isDigit :: "char \<Rightarrow> bool" where
  "isDigit c \<longleftrightarrow> (48::nat) \<le> of_char c \<and> of_char c \<le> (57::nat)"

definition digitVal :: "char \<Rightarrow> nat" where
  "digitVal c = of_char c - 48"

definition digitChar :: "nat \<Rightarrow> char" where
  "digitChar d = ''0123456789'' ! d"


section \<open>Package fmt: scanning (\<^verbatim>\<open>Sscanf\<close>)\<close>

text \<open>
  The model follows \<^verbatim>\<open>fmt/scan.go\<close> function by function, for what \<^verbatim>\<open>Sscanf\<close> does
  on a string with the formats of this program: ASCII formats made of literal text, spaces
  and \<^verbatim>\<open>%<width>d\<close> verbs, whose operands are pointers to unsigned integers. A panic of
  the scanner, which \<^verbatim>\<open>errorHandler\<close> turns into the returned error, is \<open>Inl\<close>.
\<close>

datatype scanError =
    ErrUnexpectedEOF
  | ErrEOF
  | ErrInputDoesNotMatchFormat
  | ErrNewlineInFormat
  | ErrExpectedSpace
  | ErrNewlineInInput
  | ErrUnexpectedNewline
  | ErrMissingVerb
  | ErrMissingPercent
  | ErrTooFewOperands
  | ErrTooManyOperands
  | ErrBadVerb
  | ErrExpectedInteger
  | ErrSyntax
  | ErrRange
  | ErrOverflow
  | NotModelled

text \<open>
  The scanner state \<^verbatim>\<open>ss\<close>: the unread input, the number of runes consumed, the limit
  on \<open>count\<close> for the operand being scanned, and the token buffer. \<^verbatim>\<open>Sscanf\<close> sets
  \<^verbatim>\<open>nlIsSpace\<close> and \<^verbatim>\<open>nlIsEnd\<close> to false and \<^verbatim>\<open>limit\<close> to \<^verbatim>\<open>hugeWid\<close>. The flag
  \<^verbatim>\<open>atEOF\<close> is left out: it is set when the input is exhausted, where the reader returns
  end of input by itself. \<^verbatim>\<open>UnreadRune\<close>, which always follows a successful read, is
  modelled by going on from the state before that read.
\<close>

record ss =
  rs :: string
  count :: nat
  argLimit :: nat
  buf :: string

definition hugeWid :: nat where
  "hugeWid = 1073741824"

definition newScanState :: "string \<Rightarrow> ss" where
  "newScanState str = \<lparr>rs = str, count = 0, argLimit = hugeWid, buf = []\<rparr>"

definition getRune :: "ss \<Rightarrow> rune option \<times> ss" where
  "getRune s =
     (if argLimit s \<le> count s \<or> rs s = [] then (None, s)
      else let (r, size) = DecodeRune (rs s)
           in (Some r, s\<lparr>rs := drop size (rs s), count := count s + 1\<rparr>))"

text \<open>
  \<^verbatim>\<open>indexRune(ok, r) >= 0\<close> for the ASCII constants \<open>ok\<close> the scanner is called with.
\<close>

definition indexRune :: "string \<Rightarrow> rune \<Rightarrow> bool" where
  "indexRune ok r \<longleftrightarrow> r \<in> set (map of_char ok)"

definition peek :: "string \<Rightarrow> ss \<Rightarrow> bool" where
  "peek ok s = (case getRune s of (None, _) \<Rightarrow> False | (Some r, _) \<Rightarrow> indexRune ok r)"

definition consume :: "string \<Rightarrow> bool \<Rightarrow> ss \<Rightarrow> bool \<times> ss" where
  "consume ok accept s =
     (case getRune s of
        (None, s') \<Rightarrow> (False, s')
      | (Some r, s') \<Rightarrow>
          if indexRune ok r then (True, if accept then s'\<lparr>buf := buf s' @ [char_of r]\<rparr> else s')
          else (False, if accept then s else s'))"

definition accept :: "string \<Rightarrow> ss \<Rightarrow> bool \<times> ss" where
  "accept ok s = consume ok True s"

definition notEOF :: "ss \<Rightarrow> scanError + ss" where
  "notEOF s = (case getRune s of (None, _) \<Rightarrow> Inl ErrEOF | (Some r, _) \<Rightarrow> Inr s)"

lemma DecodeRune_size: "p \<noteq> [] \<Longrightarrow> 0 < snd (DecodeRune p)"
  by (cases p) (auto simp: Let_def split: option.splits)

lemma getRune_Some_length:
  "getRune s = (Some r, s') \<Longrightarrow> length (rs s') < length (rs s)"
  using DecodeRune_size [of "rs s"]
  by (auto simp: getRune_def split: if_splits prod.splits)

text \<open>\<^verbatim>\<open>SkipSpace\<close>, with \<^verbatim>\<open>nlIsSpace\<close> false.\<close>

function SkipSpace :: "ss \<Rightarrow> scanError + ss" where
  "SkipSpace s =
     (case getRune s of
        (None, _) \<Rightarrow> Inr s
      | (Some r, s') \<Rightarrow>
          if r = of_char CR \<and> peek [NL] s' then SkipSpace s'
          else if r = of_char NL then Inl ErrUnexpectedNewline
          else if \<not> isSpace r then Inr s
          else SkipSpace s')"
  by pat_completeness auto
termination
  by (relation "measure (\<lambda>s. length (rs s))") (auto dest: getRune_Some_length [OF sym])

declare SkipSpace.simps [simp del]

text \<open>The loop \<^verbatim>\<open>for s.accept(digits) {}\<close> of \<^verbatim>\<open>scanNumber\<close>.\<close>

lemma accept_True_length:
  "accept ok s = (True, s') \<Longrightarrow> length (rs s') < length (rs s)"
  by (auto simp: accept_def consume_def split: prod.splits option.splits if_splits
      dest: getRune_Some_length)

function acceptAll :: "string \<Rightarrow> ss \<Rightarrow> ss" where
  "acceptAll ok s = (case accept ok s of (True, s') \<Rightarrow> acceptAll ok s' | (False, s') \<Rightarrow> s')"
  by pat_completeness auto
termination
  by (relation "measure (\<lambda>(ok, s). length (rs s))") (auto dest: accept_True_length [OF sym])

declare acceptAll.simps [simp del]

definition decimalDigits :: string where
  "decimalDigits = ''0123456789''"

definition scanNumber :: "string \<Rightarrow> bool \<Rightarrow> ss \<Rightarrow> scanError + (string \<times> ss)" where
  "scanNumber digits haveDigits s =
     (if \<not> haveDigits then
        (case notEOF s of
           Inl e \<Rightarrow> Inl e
         | Inr s1 \<Rightarrow>
             (case accept digits s1 of
                (False, _) \<Rightarrow> Inl ErrExpectedInteger
              | (True, s2) \<Rightarrow> let s3 = acceptAll digits s2 in Inr (buf s3, s3)))
      else let s3 = acceptAll digits s in Inr (buf s3, s3))"

text \<open>
  \<^verbatim>\<open>strconv.ParseUint(tok, 10, 64)\<close>: a syntax error on an empty token or a byte that is
  not a decimal digit, a range error from \<open>2^64\<close> on.
\<close>

fun decimalValue :: "string \<Rightarrow> nat \<Rightarrow> nat" where
  "decimalValue [] acc = acc"
| "decimalValue (c # cs) acc = decimalValue cs (acc * 10 + digitVal c)"

definition ParseUint :: "string \<Rightarrow> scanError + nat" where
  "ParseUint tok =
     (if tok = [] \<or> \<not> list_all isDigit tok then Inl ErrSyntax
      else if 2 ^ 64 \<le> decimalValue tok 0 then Inl ErrRange
      else Inr (decimalValue tok 0))"

text \<open>
  \<^verbatim>\<open>scanUint(verb, bitSize)\<close>. For the verb \<^verbatim>\<open>d\<close>, \<^verbatim>\<open>getBase\<close> gives base 10 and the
  digits \<^verbatim>\<open>0123456789\<close>. A verb outside \<^verbatim>\<open>bdoUxXv\<close> is the error of \<^verbatim>\<open>okVerb\<close>; the
  verb \<^verbatim>\<open>c\<close> and the integer verbs other than \<^verbatim>\<open>d\<close> do not occur in this program and
  are not modelled.
\<close>

definition scanUint :: "char \<Rightarrow> nat \<Rightarrow> ss \<Rightarrow> scanError + (nat \<times> ss)" where
  "scanUint verb bitSize s =
     (if verb = CHR ''c'' then Inl NotModelled
      else case SkipSpace s of
        Inl e \<Rightarrow> Inl e
      | Inr s1 \<Rightarrow>
          (case notEOF s1 of
             Inl e \<Rightarrow> Inl e
           | Inr s2 \<Rightarrow>
               if verb \<notin> set ''bdoUxXv'' then Inl ErrBadVerb
               else if verb \<noteq> CHR ''d'' then Inl NotModelled
               else
                 (case scanNumber decimalDigits False s2 of
                    Inl e \<Rightarrow> Inl e
                  | Inr (tok, s3) \<Rightarrow>
                      (case ParseUint tok of
                         Inl e \<Rightarrow> Inl e
                       | Inr i \<Rightarrow>
                           if i mod 2 ^ bitSize \<noteq> i then Inl ErrOverflow
                           else Inr (i, s3)))))"

text \<open>
  An operand of \<^verbatim>\<open>Sscanf\<close> is a pointer into some memory \<open>'h\<close>: to an unsigned
  integer, given by the bit size of its type and the store through the pointer, or to a
  string. \<^verbatim>\<open>scanOne\<close> empties the token buffer, scans, and stores only when the scan has
  not failed. For a string pointer \<^verbatim>\<open>convertString\<close> rejects a verb outside \<^verbatim>\<open>svqxX\<close>;
  scanning a string is not modelled.
\<close>

datatype 'h operand =
    UintPtr nat "nat \<Rightarrow> 'h \<Rightarrow> 'h"
  | StringPtr "string \<Rightarrow> 'h \<Rightarrow> 'h"

fun scanOne :: "char \<Rightarrow> 'h operand \<Rightarrow> 'h \<Rightarrow> ss \<Rightarrow> scanError + ('h \<times> ss)" where
  "scanOne verb (UintPtr bitSize store) h s =
     (case scanUint verb bitSize (s\<lparr>buf := []\<rparr>) of
        Inl e \<Rightarrow> Inl e
      | Inr (v, s') \<Rightarrow> Inr (store v h, s'))"
| "scanOne verb (StringPtr store) h s =
     (if verb \<notin> set ''svqxX'' then Inl ErrBadVerb else Inl NotModelled)"

definition scanPercent :: "ss \<Rightarrow> scanError + ss" where
  "scanPercent s =
     (case SkipSpace s of
        Inl e \<Rightarrow> Inl e
      | Inr s1 \<Rightarrow>
          (case notEOF s1 of
             Inl e \<Rightarrow> Inl e
           | Inr s2 \<Rightarrow>
               (case accept ''%'' s2 of
                  (False, _) \<Rightarrow> Inl ErrMissingPercent
                | (True, s3) \<Rightarrow> Inr s3)))"

text \<open>
  \<^verbatim>\<open>parsenum(s, start, end)\<close> of \<^verbatim>\<open>fmt/print.go\<close>, on the format from \<open>start\<close> on;
  \<open>reserve\<close> is the number of bytes of the format from \<open>end\<close> on (1 when called by
  \<^verbatim>\<open>doScanf\<close>, whose \<open>end\<close> is the last index; 0 when called by \<^verbatim>\<open>doPrintf\<close>). The result
  is the number, whether there was one, and the format from the new index on.
\<close>

definition tooLarge :: "nat \<Rightarrow> bool" where
  "tooLarge x \<longleftrightarrow> 1000000 < x"

fun parsenumLoop :: "nat \<Rightarrow> string \<Rightarrow> nat \<Rightarrow> bool \<Rightarrow> nat \<times> bool \<times> string" where
  "parsenumLoop reserve [] num isnum = (num, isnum, [])"
| "parsenumLoop reserve (c # cs) num isnum =
     (if reserve < length (c # cs) \<and> isDigit c then
        (if tooLarge num then (0, False, drop (length (c # cs) - reserve) (c # cs))
         else parsenumLoop reserve cs (num * 10 + digitVal c) True)
      else (num, isnum, c # cs))"

definition parsenum :: "nat \<Rightarrow> string \<Rightarrow> nat \<times> bool \<times> string" where
  "parsenum reserve fmt =
     (if length fmt \<le> reserve then (0, False, fmt) else parsenumLoop reserve fmt 0 False)"

text \<open>
  The loops of \<^verbatim>\<open>advance\<close> that read input spaces other than newline, stopping before
  the first rune that is not one.
\<close>

function skipBlanks :: "ss \<Rightarrow> ss" where
  "skipBlanks s =
     (case getRune s of
        (None, _) \<Rightarrow> s
      | (Some r, s') \<Rightarrow> if isSpace r \<and> r \<noteq> of_char NL then skipBlanks s' else s)"
  by pat_completeness auto
termination
  by (relation "measure (\<lambda>s. length (rs s))") (auto dest: getRune_Some_length [OF sym])

declare skipBlanks.simps [simp del]

text \<open>
  One newline of a run of format spaces: input spaces, then a newline or the end of input.
\<close>

fun matchNewlines :: "nat \<Rightarrow> ss \<Rightarrow> scanError + ss" where
  "matchNewlines 0 s = Inr s"
| "matchNewlines (Suc j) s =
     (case getRune (skipBlanks s) of
        (None, s') \<Rightarrow> matchNewlines j s'
      | (Some r, s') \<Rightarrow>
          if r \<noteq> of_char NL then Inl ErrNewlineInFormat else matchNewlines j s')"

definition matchTrailingSpace :: "nat \<Rightarrow> ss \<Rightarrow> scanError + ss" where
  "matchTrailingSpace newlines s =
     (case getRune s of
        (None, _) \<Rightarrow> Inr (skipBlanks s)
      | (Some inputc, _) \<Rightarrow>
          if newlines = 0 \<and> \<not> isSpace inputc then Inl ErrExpectedSpace
          else if newlines = 0 \<and> inputc = of_char NL then Inl ErrNewlineInInput
          else Inr (skipBlanks s))"

definition fmtSpace :: "char \<Rightarrow> bool" where
  "fmtSpace c \<longleftrightarrow> (of_char c :: nat) < 0x80 \<and> isSpace (of_char c)"

text \<open>
  \<^verbatim>\<open>advance(format)\<close>: the number of format bytes matched by the input, \<open>-1\<close> when a
  literal does not match; \<open>i\<close> is the index reached, \<open>fmt\<close> the format from there on.
  A format byte \<open>\<ge> 0x80\<close> is outside what is modelled.
\<close>

function advanceLoop :: "string \<Rightarrow> int \<Rightarrow> ss \<Rightarrow> scanError + (int \<times> ss)" where
  "advanceLoop [] i s = Inr (i, s)"
| "advanceLoop (c # fmt) i s =
     (if (0x80::nat) \<le> of_char c then Inl NotModelled
      else if fmtSpace c then
        (let run = takeWhile fmtSpace (c # fmt);
             newlines = length (filter (\<lambda>x. x = NL) run);
             trailingSpace = (last run \<noteq> NL)
         in case matchNewlines newlines s of
              Inl e \<Rightarrow> Inl e
            | Inr s1 \<Rightarrow>
                (case (if trailingSpace then matchTrailingSpace newlines s1 else Inr s1) of
                   Inl e \<Rightarrow> Inl e
                 | Inr s2 \<Rightarrow>
                     advanceLoop (dropWhile fmtSpace (c # fmt)) (i + int (length run)) s2))
      else if c = CHR ''%'' \<and> fmt = [] then Inl ErrMissingVerb
      else if c = CHR ''%'' \<and> hd fmt \<noteq> CHR ''%'' then Inr (i, s)
      else
        (case getRune s of
           (None, _) \<Rightarrow> Inl ErrUnexpectedEOF
         | (Some inputc, s') \<Rightarrow>
             if of_char c \<noteq> inputc then Inr (- 1, s)
             else if c = CHR ''%'' then advanceLoop (tl fmt) (i + 2) s'
             else advanceLoop fmt (i + 1) s'))"
  by pat_completeness auto
termination
proof (relation "measure (\<lambda>(fmt, i, s). length fmt)", goal_cases)
  case 1
  show ?case by simp
next
  case (2 c fmt i s)
  have "length (dropWhile fmtSpace (c # fmt)) \<le> length fmt"
    using 2 length_dropWhile_le [of fmtSpace fmt] by simp
  then show ?case by simp
next
  case (3 c fmt i s)
  then show ?case by (cases fmt) auto
next
  case 4
  then show ?case by simp
qed

definition advance :: "string \<Rightarrow> ss \<Rightarrow> scanError + (int \<times> ss)" where
  "advance fmt s = advanceLoop fmt 0 s"

lemma parsenumLoop_length:
  "parsenumLoop reserve fmt num isnum = (n, b, fmt') \<Longrightarrow> length fmt' \<le> length fmt"
  by (induction reserve fmt num isnum rule: parsenumLoop.induct)
    (auto split: if_splits simp del: length_drop, auto)

lemma parsenum_length:
  "parsenum reserve fmt = (n, b, fmt') \<Longrightarrow> length fmt' \<le> length fmt"
  by (auto simp: parsenum_def split: if_splits dest: parsenumLoop_length)

text \<open>
  The part of the loop of \<^verbatim>\<open>doScanf\<close> that handles one verb: \<open>fmt\<close> is the format
  after the \<^verbatim>\<open>%\<close>. It gives the format after the verb, \<^verbatim>\<open>numProcessed\<close>, the memory
  and the scanner, or the error. After a \<^verbatim>\<open>%\<close> and its width a verb byte always follows
  (\<^verbatim>\<open>advance\<close> has checked it, and \<^verbatim>\<open>parsenum\<close> never takes the last byte).
\<close>

definition doVerb ::
  "string \<Rightarrow> 'h operand list \<Rightarrow> nat \<Rightarrow> 'h \<Rightarrow> ss \<Rightarrow> scanError + (string \<times> nat \<times> 'h \<times> ss)" where
  "doVerb fmt a numProcessed h s =
     (case parsenum 1 fmt of
        (wid, widPresent, fmt2) \<Rightarrow>
          (case fmt2 of
             [] \<Rightarrow> Inl NotModelled
           | c # fmt3 \<Rightarrow>
               if (0x80::nat) \<le> of_char c then Inl NotModelled
               else
                 (case (if c \<noteq> CHR ''c'' then SkipSpace s else Inr s) of
                    Inl e \<Rightarrow> Inl e
                  | Inr s2 \<Rightarrow>
                      if c = CHR ''%'' then
                        (case scanPercent s2 of
                           Inl e \<Rightarrow> Inl e
                         | Inr s3 \<Rightarrow> Inr (fmt3, numProcessed, h, s3))
                      else if length a \<le> numProcessed then Inl ErrTooFewOperands
                      else
                        (case scanOne c (a ! numProcessed) h
                                (s2\<lparr>argLimit :=
                                   min hugeWid
                                     (count s2 + (if widPresent then wid else hugeWid))\<rparr>) of
                           Inl e \<Rightarrow> Inl e
                         | Inr (h', s4) \<Rightarrow>
                             Inr (fmt3, numProcessed + 1, h', s4\<lparr>argLimit := hugeWid\<rparr>)))))"

lemma doVerb_length:
  "doVerb fmt a n h s = Inr (fmt', n', h', s') \<Longrightarrow> length fmt' < length fmt"
  by (auto simp: doVerb_def split: prod.splits list.splits if_splits sum.splits
      dest!: parsenum_length)

text \<open>
  \<^verbatim>\<open>doScanf(format, a)\<close>: \<open>fmt\<close> is the format from index \<open>i\<close> on. The result is
  \<^verbatim>\<open>numProcessed\<close> with the error, and the memory after the stores made before the
  error.
\<close>

definition doScanfEnd :: "'h operand list \<Rightarrow> nat \<Rightarrow> 'h \<Rightarrow> (nat \<times> scanError option) \<times> 'h" where
  "doScanfEnd a numProcessed h =
     (if numProcessed < length a then ((numProcessed, Some ErrTooManyOperands), h)
      else ((numProcessed, None), h))"

function doScanf ::
  "string \<Rightarrow> 'h operand list \<Rightarrow> nat \<Rightarrow> 'h \<Rightarrow> ss \<Rightarrow> (nat \<times> scanError option) \<times> 'h" where
  "doScanf fmt a numProcessed h s =
     (if fmt = [] then doScanfEnd a numProcessed h
      else case advance fmt s of
        Inl e \<Rightarrow> ((numProcessed, Some e), h)
      | Inr (w, s1) \<Rightarrow>
          if 0 < w then doScanf (drop (nat w) fmt) a numProcessed h s1
          else if hd fmt \<noteq> CHR ''%'' then
            (if w < 0 then ((numProcessed, Some ErrInputDoesNotMatchFormat), h)
             else doScanfEnd a numProcessed h)
          else
            (case doVerb (tl fmt) a numProcessed h s1 of
               Inl e \<Rightarrow> ((numProcessed, Some e), h)
             | Inr (fmt3, numProcessed', h', s') \<Rightarrow> doScanf fmt3 a numProcessed' h' s'))"
  by pat_completeness auto
termination
proof (relation "measure (\<lambda>(fmt, a, n, h, s). length fmt)", goal_cases)
  case 1
  show ?case by simp
next
  case 2
  then show ?case by simp
next
  case (3 fmt a numProcessed h s x2 w s1 x2a fmt3 y numProcessed' ya h' s')
  then have "length fmt3 < length (tl fmt)"
    using doVerb_length [of "tl fmt" a numProcessed h s1 fmt3 numProcessed' h' s'] by simp
  then show ?case by simp
qed

declare doScanf.simps [simp del]

text \<open>\<^verbatim>\<open>fmt.Sscanf(str, format, a...)\<close>.\<close>

definition Sscanf :: "string \<Rightarrow> string \<Rightarrow> 'h operand list \<Rightarrow> 'h \<Rightarrow> (nat \<times> scanError option) \<times> 'h" where
  "Sscanf str format a h = doScanf format a 0 h (newScanState str)"


section \<open>Package fmt: printing (\<^verbatim>\<open>Sprintf\<close>)\<close>

text \<open>
  The model follows \<^verbatim>\<open>doPrintf\<close> of \<^verbatim>\<open>fmt/print.go\<close> for ASCII formats made of literal
  text and of the directives \<^verbatim>\<open>%d\<close> (with an optional \<^verbatim>\<open>0\<close> flag and width) on an integer
  operand, \<^verbatim>\<open>%s\<close> on a string operand, and \<^verbatim>\<open>%%\<close>. Anything else (other flags, \<^verbatim>\<open>*\<close>, a
  precision, an argument index, another verb or operand type) does not occur in this
  program; there the model stops with the marker \<open>notModelled\<close>, which no Go output is.
\<close>

datatype arg =
    U8 "8 word"
  | U16 "16 word"
  | U32 "32 word"
  | GoInt int
  | Str string

definition notModelled :: string where
  "notModelled = ''%!(NOTMODELLED)''"

text \<open>The digit loop of \<^verbatim>\<open>fmtInteger\<close> in base 10.\<close>

fun decimal :: "nat \<Rightarrow> string" where
  "decimal u = (if u < 10 then [digitChar u] else decimal (u div 10) @ [digitChar (u mod 10)])"

declare decimal.simps [simp del]

text \<open>
  \<^verbatim>\<open>fmt.pad\<close> without the \<^verbatim>\<open>-\<close> flag, called by \<^verbatim>\<open>fmtInteger\<close> with \<^verbatim>\<open>f.zero\<close> off:
  spaces on the left up to the width. The bytes padded here are ASCII, one rune each.
\<close>

definition pad :: "bool \<Rightarrow> nat \<Rightarrow> string \<Rightarrow> string" where
  "pad widPresent wid b =
     (if \<not> widPresent \<or> wid = 0 then b else replicate (wid - length b) CHR '' '' @ b)"

text \<open>
  \<^verbatim>\<open>fmtInteger(u, 10, isSigned, 'd', ldigits)\<close> with the flags \<^verbatim>\<open>zero\<close> and
  \<^verbatim>\<open>widPresent\<close>, no precision and no other flag: \<open>u\<close> is the magnitude. With the \<^verbatim>\<open>0\<close>
  flag the digits are filled with zeros up to the width, less one for a minus sign.
\<close>

definition fmtInteger :: "bool \<Rightarrow> bool \<Rightarrow> nat \<Rightarrow> bool \<Rightarrow> nat \<Rightarrow> string" where
  "fmtInteger zero widPresent wid negative u =
     (let prec = (if zero \<and> widPresent then (if negative then wid - 1 else wid) else 0);
          digits = decimal u;
          filled = replicate (prec - length digits) CHR ''0'' @ digits
      in pad widPresent wid (if negative then CHR ''-'' # filled else filled))"

fun printArg :: "bool \<Rightarrow> bool \<Rightarrow> nat \<Rightarrow> arg \<Rightarrow> char \<Rightarrow> string option" where
  "printArg zero widPresent wid (U8 v) verb =
     (if verb = CHR ''d'' then Some (fmtInteger zero widPresent wid False (unat v)) else None)"
| "printArg zero widPresent wid (U16 v) verb =
     (if verb = CHR ''d'' then Some (fmtInteger zero widPresent wid False (unat v)) else None)"
| "printArg zero widPresent wid (U32 v) verb =
     (if verb = CHR ''d'' then Some (fmtInteger zero widPresent wid False (unat v)) else None)"
| "printArg zero widPresent wid (GoInt v) verb =
     (if verb = CHR ''d'' then Some (fmtInteger zero widPresent wid (v < 0) (nat \<bar>v\<bar>)) else None)"
| "printArg zero widPresent wid (Str v) verb =
     (if verb = CHR ''s'' \<and> \<not> zero \<and> \<not> widPresent then Some v else None)"

text \<open>The \<^verbatim>\<open>0\<close> flags after a \<^verbatim>\<open>%\<close>.\<close>

fun printFlags :: "string \<Rightarrow> bool \<Rightarrow> bool \<times> string" where
  "printFlags [] zero = (zero, [])"
| "printFlags (c # fmt) zero = (if c = CHR ''0'' then printFlags fmt True else (zero, c # fmt))"

lemma printFlags_length: "printFlags fmt z = (z', fmt') \<Longrightarrow> length fmt' \<le> length fmt"
  by (induction fmt z rule: printFlags.induct) (auto split: if_splits)

text \<open>
  The operands left over at the end of the format: \<^verbatim>\<open>%!(EXTRA type=value, ...)\<close>.
\<close>

fun typeName :: "arg \<Rightarrow> string" where
  "typeName (U8 v) = ''uint8''"
| "typeName (U16 v) = ''uint16''"
| "typeName (U32 v) = ''uint32''"
| "typeName (GoInt v) = ''int''"
| "typeName (Str v) = ''string''"

fun printValue :: "arg \<Rightarrow> string" where
  "printValue (U8 v) = decimal (unat v)"
| "printValue (U16 v) = decimal (unat v)"
| "printValue (U32 v) = decimal (unat v)"
| "printValue (GoInt v) = fmtInteger False False 0 (v < 0) (nat \<bar>v\<bar>)"
| "printValue (Str v) = v"

fun extraArgs :: "arg list \<Rightarrow> string" where
  "extraArgs [] = []"
| "extraArgs [x] = typeName x @ ''='' @ printValue x"
| "extraArgs (x # y # ys) = typeName x @ ''='' @ printValue x @ '', '' @ extraArgs (y # ys)"

text \<open>
  \<^verbatim>\<open>doPrintf(format, a)\<close>: \<open>fmt\<close> is the format from index \<open>i\<close> on and \<open>a\<close> the operands
  from \<^verbatim>\<open>argNum\<close> on. The fast path of \<^verbatim>\<open>doPrintf\<close> for a lower-case verb right after the
  flags prints what the general path prints, and is not told apart.
\<close>

function doPrintf :: "string \<Rightarrow> arg list \<Rightarrow> string" where
  "doPrintf [] a = (if a = [] then [] else ''%!(EXTRA '' @ extraArgs a @ '')'')"
| "doPrintf (c # fmt) a =
     (if c \<noteq> CHR ''%'' then c # doPrintf fmt a
      else case printFlags fmt False of
        (zero, fmt1) \<Rightarrow>
          (if fmt1 \<noteq> [] \<and> hd fmt1 \<in> set ''#+- [*'' then notModelled
           else case parsenum 0 fmt1 of
             (wid, widPresent, fmt2) \<Rightarrow>
               (case fmt2 of
                  [] \<Rightarrow> ''%!(NOVERB)'' @ doPrintf [] a
                | verb # fmt3 \<Rightarrow>
                    if (0x80::nat) \<le> of_char verb \<or> verb \<in> set ''.['' then notModelled
                    else if verb = CHR ''%'' then CHR ''%'' # doPrintf fmt3 a
                    else
                      (case a of
                         [] \<Rightarrow> ''%!'' @ [verb] @ ''(MISSING)'' @ doPrintf fmt3 a
                       | x # a' \<Rightarrow>
                           (case printArg zero widPresent wid x verb of
                              None \<Rightarrow> notModelled
                            | Some out \<Rightarrow> out @ doPrintf fmt3 a')))))"
  by pat_completeness auto
termination
  by (relation "measure (\<lambda>(fmt, a). length fmt)")
    (auto dest!: printFlags_length [OF sym] parsenum_length [OF sym])

definition Sprintf :: "string \<Rightarrow> arg list \<Rightarrow> string" where
  "Sprintf format a = doPrintf format a"


section \<open>Package strings\<close>

definition HasPrefix :: "string \<Rightarrow> string \<Rightarrow> bool" where
  "HasPrefix s pre \<longleftrightarrow> take (length pre) s = pre"

definition TrimSuffix :: "string \<Rightarrow> string \<Rightarrow> string" where
  "TrimSuffix s suf =
     (if length suf \<le> length s \<and> drop (length s - length suf) s = suf
      then take (length s - length suf) s else s)"

text \<open>
  \<^verbatim>\<open>strings.Split(s, ",")\<close>: the pieces of \<open>s\<close> between the separator bytes; \<open>cur\<close> is the
  piece being read, reversed. The result is never empty.
\<close>

fun splitOn :: "char \<Rightarrow> string \<Rightarrow> string \<Rightarrow> string list" where
  "splitOn sep [] cur = [rev cur]"
| "splitOn sep (c # cs) cur =
     (if c = sep then rev cur # splitOn sep cs [] else splitOn sep cs (c # cur))"

definition Split :: "string \<Rightarrow> char \<Rightarrow> string list" where
  "Split s sep = splitOn sep s []"


section \<open>The memory entry and its two lines (\<^verbatim>\<open>main.go\<close>)\<close>

record MemoryEntry =
  Number :: "16 word"
  RXFrequency :: "32 word"
  RXStepSize :: "8 word"
  ShiftDirection :: "8 word"
  ReverseEnabled :: "8 word"
  ToneEnabled :: "8 word"
  CTCSSEnabled :: "8 word"
  DCSEnabled :: "8 word"
  ToneFrequency :: "16 word"
  CTCSSFrequency :: "16 word"
  DCSFrequency :: "16 word"
  OffsetFrequency :: "32 word"
  Mode :: "8 word"
  TXFrequency :: "32 word"
  TXStepSize :: "8 word"
  LockOut :: "8 word"
  Name :: string

text \<open>The zero value \<^verbatim>\<open>MemoryEntry{}\<close>.\<close>

definition zeroEntry :: MemoryEntry where
  "zeroEntry =
     \<lparr>Number = 0, RXFrequency = 0, RXStepSize = 0, ShiftDirection = 0, ReverseEnabled = 0,
      ToneEnabled = 0, CTCSSEnabled = 0, DCSEnabled = 0, ToneFrequency = 0, CTCSSFrequency = 0,
      DCSFrequency = 0, OffsetFrequency = 0, Mode = 0, TXFrequency = 0, TXStepSize = 0,
      LockOut = 0, Name = []\<rparr>"

definition MEFormat :: string where
  "MEFormat = ''ME %03d,%010d,%1d,%1d,%1d,%1d,%1d,%1d,%02d,%02d,%03d,%08d,%1d,%010d,%1d,%1d''"

definition MNFormat :: string where
  "MNFormat = ''MN %03d,%s''"

definition MECommandFormat :: string where
  "MECommandFormat = ''ME %03d'' @ [CR]"

definition MNCommandFormat :: string where
  "MNCommandFormat = ''MN %03d'' @ [CR]"

text \<open>
  \<^verbatim>\<open>StructFieldPointers\<close> and \<^verbatim>\<open>StructFieldValues\<close>: reflection walks the fields of
  the struct in the order of their declaration, all 17 of them.
\<close>

definition StructFieldPointers :: "MemoryEntry operand list" where
  "StructFieldPointers =
     [UintPtr 16 (\<lambda>v m. m\<lparr>Number := of_nat v\<rparr>),
      UintPtr 32 (\<lambda>v m. m\<lparr>RXFrequency := of_nat v\<rparr>),
      UintPtr 8 (\<lambda>v m. m\<lparr>RXStepSize := of_nat v\<rparr>),
      UintPtr 8 (\<lambda>v m. m\<lparr>ShiftDirection := of_nat v\<rparr>),
      UintPtr 8 (\<lambda>v m. m\<lparr>ReverseEnabled := of_nat v\<rparr>),
      UintPtr 8 (\<lambda>v m. m\<lparr>ToneEnabled := of_nat v\<rparr>),
      UintPtr 8 (\<lambda>v m. m\<lparr>CTCSSEnabled := of_nat v\<rparr>),
      UintPtr 8 (\<lambda>v m. m\<lparr>DCSEnabled := of_nat v\<rparr>),
      UintPtr 16 (\<lambda>v m. m\<lparr>ToneFrequency := of_nat v\<rparr>),
      UintPtr 16 (\<lambda>v m. m\<lparr>CTCSSFrequency := of_nat v\<rparr>),
      UintPtr 16 (\<lambda>v m. m\<lparr>DCSFrequency := of_nat v\<rparr>),
      UintPtr 32 (\<lambda>v m. m\<lparr>OffsetFrequency := of_nat v\<rparr>),
      UintPtr 8 (\<lambda>v m. m\<lparr>Mode := of_nat v\<rparr>),
      UintPtr 32 (\<lambda>v m. m\<lparr>TXFrequency := of_nat v\<rparr>),
      UintPtr 8 (\<lambda>v m. m\<lparr>TXStepSize := of_nat v\<rparr>),
      UintPtr 8 (\<lambda>v m. m\<lparr>LockOut := of_nat v\<rparr>),
      StringPtr (\<lambda>v m. m\<lparr>Name := v\<rparr>)]"

definition StructFieldValues :: "MemoryEntry \<Rightarrow> arg list" where
  "StructFieldValues m =
     [U16 (Number m), U32 (RXFrequency m), U8 (RXStepSize m), U8 (ShiftDirection m),
      U8 (ReverseEnabled m), U8 (ToneEnabled m), U8 (CTCSSEnabled m), U8 (DCSEnabled m),
      U16 (ToneFrequency m), U16 (CTCSSFrequency m), U16 (DCSFrequency m),
      U32 (OffsetFrequency m), U8 (Mode m), U32 (TXFrequency m), U8 (TXStepSize m),
      U8 (LockOut m), Str (Name m)]"

text \<open>
  The errors of the program, one constructor for each \<^verbatim>\<open>fmt.Errorf\<close> of \<^verbatim>\<open>main.go\<close>,
  with the values its message carries and the error it wraps. \<open>IOError\<close> is an error of
  the serial port; \<open>PanicIndex\<close> is the run-time panic of an index out of range.
\<close>

datatype error =
    IOError
  | WriteStringFailed string error
  | FlushFailed string error
  | ReadStringFailed error
  | WritingToRadio error
  | ReadingFromRadio error
  | Rejected string
  | ReadingChannel error
  | ReadingChannelName error
  | ParsingChannelLine error
  | ParsingNameLine error
  | EmptyChannel int
  | ClearingChannel int error
  | WritingChannelData int error
  | WritingChannelName int error
  | ReadingMemory error
  | WritingChannel "16 word" error
  | MalformedNameLine string
  | MalformedChannelLine string
  | LessItems
  | PanicIndex

text \<open>
  The methods on \<^verbatim>\<open>*MemoryEntry\<close> change the entry in place and return an error: here
  they return the entry as they leave it, with the error.
\<close>

definition ReadNameLine :: "MemoryEntry \<Rightarrow> string \<Rightarrow> MemoryEntry \<times> error option" where
  "ReadNameLine m line =
     (if line \<noteq> ''N'' @ [CR] then
        (let line' = TrimSuffix line [CR];
             items = Split line' CHR '',''
         in if \<not> HasPrefix (items ! 0) ''MN'' then (m, Some (MalformedNameLine line'))
            else if length items < 2 \<or> items ! 1 = [] then (m\<lparr>Name := []\<rparr>, None)
            else (m\<lparr>Name := items ! 1\<rparr>, None))
      else (m, None))"

definition ReadChannelLine :: "MemoryEntry \<Rightarrow> string \<Rightarrow> MemoryEntry \<times> error option" where
  "ReadChannelLine m line =
     (if line \<noteq> ''N'' @ [CR] then
        (case Sscanf line MEFormat (take 16 StructFieldPointers) m of
           ((items, err), m') \<Rightarrow>
             if err \<noteq> None then (m', Some (MalformedChannelLine line))
             else if items < 15 then (m', Some LessItems)
             else (m', None))
      else (m, None))"

definition WriteNameLine :: "MemoryEntry \<Rightarrow> string" where
  "WriteNameLine m =
     (let n = (if 8 < length (Name m) then take 8 (Name m) else Name m)
      in Sprintf MNFormat [U16 (Number m), Str n])"

definition WriteChannelLine :: "MemoryEntry \<Rightarrow> string" where
  "WriteChannelLine m = Sprintf MEFormat (take 16 (StructFieldValues m))"


section \<open>The radio (\<^verbatim>\<open>main.go\<close>)\<close>

text \<open>
  The serial port behind its \<^verbatim>\<open>bufio.ReadWriter\<close>, as the program sees it: the bytes the
  device will send, not yet read; the strings written and flushed, oldest first; which
  flush fails (the flush after \<open>k\<close> successful ones fails when \<open>wfail k\<close>); and the error
  that a \<^verbatim>\<open>bufio.Writer\<close> keeps after a failed write, refusing every later one. The program
  runs alone on the port and is deterministic, so what the device answers on one run is
  one value of \<open>incoming\<close>. A read finds a carriage return or fails, as it does at the end
  of the input.
\<close>

record port =
  incoming :: string
  written :: "string list"
  wfail :: "nat \<Rightarrow> bool"
  werr :: bool

text \<open>
  Of \<^verbatim>\<open>Radio\<close>, the fields \<^verbatim>\<open>Port\<close>, \<^verbatim>\<open>PortPath\<close> and \<^verbatim>\<open>BaudRate\<close> serve \<^verbatim>\<open>Connect\<close>
  only and are left out.
\<close>

record Radio =
  PortRW :: port
  Model :: string
  Memory :: "MemoryEntry list"

definition WriteString :: "Radio \<Rightarrow> string \<Rightarrow> error option \<times> Radio" where
  "WriteString r command =
     (let p = PortRW r in
      if werr p then (Some (WriteStringFailed command IOError), r)
      else if wfail p (length (written p)) then
        (Some (FlushFailed command IOError), r\<lparr>PortRW := p\<lparr>werr := True\<rparr>\<rparr>)
      else (None, r\<lparr>PortRW := p\<lparr>written := written p @ [command]\<rparr>\<rparr>))"

definition ReadString :: "Radio \<Rightarrow> (string \<times> error option) \<times> Radio" where
  "ReadString r =
     (let p = PortRW r in
      if CR \<in> set (incoming p) then
        ((takeWhile (\<lambda>c. c \<noteq> CR) (incoming p) @ [CR], None),
         r\<lparr>PortRW := p\<lparr>incoming := tl (dropWhile (\<lambda>c. c \<noteq> CR) (incoming p))\<rparr>\<rparr>)
      else (([], Some (ReadStringFailed IOError)), r\<lparr>PortRW := p\<lparr>incoming := []\<rparr>\<rparr>))"

definition WriteReadString :: "Radio \<Rightarrow> string \<Rightarrow> (string \<times> error option) \<times> Radio" where
  "WriteReadString r command =
     (case WriteString r command of
        (Some err, r1) \<Rightarrow> (([], Some (WritingToRadio err)), r1)
      | (None, r1) \<Rightarrow>
          (case ReadString r1 of
             ((line, Some err), r2) \<Rightarrow> (([], Some (ReadingFromRadio err)), r2)
           | ((line, None), r2) \<Rightarrow>
               if HasPrefix line ''?'' then (([], Some (Rejected command)), r2)
               else ((line, None), r2)))"

text \<open>
  \<^verbatim>\<open>ReadChannel\<close>: the result \<open>m\<close> starts as the zero entry; the channel is a Go
  \<^verbatim>\<open>int\<close>.
\<close>

definition ReadChannel :: "Radio \<Rightarrow> int \<Rightarrow> (MemoryEntry \<times> error option) \<times> Radio" where
  "ReadChannel r channel =
     (case WriteReadString r (Sprintf MECommandFormat [GoInt channel]) of
        ((chline, Some err), r1) \<Rightarrow> ((zeroEntry, Some (ReadingChannel err)), r1)
      | ((chline, None), r1) \<Rightarrow>
          (case WriteReadString r1 (Sprintf MNCommandFormat [GoInt channel]) of
             ((nameline, Some err), r2) \<Rightarrow> ((zeroEntry, Some (ReadingChannelName err)), r2)
           | ((nameline, None), r2) \<Rightarrow>
               (case ReadChannelLine zeroEntry chline of
                  (m1, Some err) \<Rightarrow> ((zeroEntry, Some (ParsingChannelLine err)), r2)
                | (m1, None) \<Rightarrow>
                    (case ReadNameLine m1 nameline of
                       (m2, Some err) \<Rightarrow> ((zeroEntry, Some (ParsingNameLine err)), r2)
                     | (m2, None) \<Rightarrow> ((m2, None), r2)))))"

text \<open>
  The closure at the head of \<^verbatim>\<open>WriteChannel\<close>: the first entry of the memory whose
  \<^verbatim>\<open>Number\<close> is \<^verbatim>\<open>uint16(channel)\<close>, the zero entry when there is none.
\<close>

fun findChannel :: "MemoryEntry list \<Rightarrow> 16 word \<Rightarrow> MemoryEntry" where
  "findChannel [] n = zeroEntry"
| "findChannel (m # ms) n = (if Number m = n then m else findChannel ms n)"

definition WriteChannel :: "Radio \<Rightarrow> int \<Rightarrow> error option \<times> Radio" where
  "WriteChannel r channel =
     (let ch = findChannel (Memory r) (word_of_int channel) in
      if RXFrequency ch = 0 then (Some (EmptyChannel channel), r)
      else case WriteReadString r (Sprintf (''ME %03d,C'' @ [CR]) [GoInt channel]) of
        ((_, Some err), r1) \<Rightarrow> (Some (ClearingChannel channel err), r1)
      | ((_, None), r1) \<Rightarrow>
          (case WriteReadString r1 (WriteChannelLine ch @ [CR]) of
             ((_, Some err), r2) \<Rightarrow> (Some (WritingChannelData channel err), r2)
           | ((_, None), r2) \<Rightarrow>
               (case WriteReadString r2 (WriteNameLine ch @ [CR]) of
                  ((_, Some err), r3) \<Rightarrow> (Some (WritingChannelName channel err), r3)
                | ((_, None), r3) \<Rightarrow> (None, r3))))"

text \<open>
  \<^verbatim>\<open>ReadMemory\<close>: the loop \<^verbatim>\<open>for i := 0; i <= 999; i++\<close>. In the assignment
  \<^verbatim>\<open>r.Memory[i], err = r.ReadChannel(i)\<close> the call comes first, then the store, which
  panics when the memory has no index \<open>i\<close>; the error is looked at after the store.
\<close>

function ReadMemoryLoop :: "nat \<Rightarrow> Radio \<Rightarrow> error option \<times> Radio" where
  "ReadMemoryLoop i r =
     (if i \<le> 999 then
        (case ReadChannel r (int i) of
           ((m, err), r1) \<Rightarrow>
             if length (Memory r1) \<le> i then (Some PanicIndex, r1)
             else
               (let r2 = r1\<lparr>Memory := (Memory r1)[i := m]\<rparr> in
                case err of
                  Some e \<Rightarrow> (Some (ReadingMemory e), r2)
                | None \<Rightarrow> ReadMemoryLoop (i + 1) r2))
      else (None, r))"
  by pat_completeness auto
termination
  by (relation "measure (\<lambda>(i, r). 1000 - i)") auto

declare ReadMemoryLoop.simps [simp del]

definition ReadMemory :: "Radio \<Rightarrow> error option \<times> Radio" where
  "ReadMemory r = ReadMemoryLoop 0 r"

text \<open>\<^verbatim>\<open>OccupedChannels\<close>: the loop over the memory that appends to \<open>v\<close>.\<close>

fun OccupedLoop :: "MemoryEntry list \<Rightarrow> MemoryEntry list \<Rightarrow> MemoryEntry list" where
  "OccupedLoop [] v = v"
| "OccupedLoop (m # ms) v = OccupedLoop ms (if RXFrequency m \<noteq> 0 then v @ [m] else v)"

definition OccupedChannels :: "Radio \<Rightarrow> MemoryEntry list" where
  "OccupedChannels r = OccupedLoop (Memory r) []"

fun WriteMemoryLoop :: "MemoryEntry list \<Rightarrow> Radio \<Rightarrow> error option \<times> Radio" where
  "WriteMemoryLoop [] r = (None, r)"
| "WriteMemoryLoop (m # ms) r =
     (case WriteChannel r (uint (Number m)) of
        (Some err, r1) \<Rightarrow> (Some (WritingChannel (Number m) err), r1)
      | (None, r1) \<Rightarrow> WriteMemoryLoop ms r1)"

definition WriteMemory :: "Radio \<Rightarrow> error option \<times> Radio" where
  "WriteMemory r = WriteMemoryLoop (OccupedChannels r) r"


section \<open>Notions for the proofs about the numeric line\<close>

text \<open>
  \<open>inRange m\<close>: every numeric field of the entry fits the number of digits the wire
  format gives it (3 digits for the number, 10 for the frequencies, which every 32-bit
  value fits, and so on).
\<close>

definition inRange :: "MemoryEntry \<Rightarrow> bool" where
  "inRange m \<longleftrightarrow>
     unat (Number m) \<le> 999 \<and> unat (RXFrequency m) \<le> 9999999999 \<and>
     unat (RXStepSize m) \<le> 9 \<and> unat (ShiftDirection m) \<le> 9 \<and>
     unat (ReverseEnabled m) \<le> 9 \<and> unat (ToneEnabled m) \<le> 9 \<and>
     unat (CTCSSEnabled m) \<le> 9 \<and> unat (DCSEnabled m) \<le> 9 \<and>
     unat (ToneFrequency m) \<le> 99 \<and> unat (CTCSSFrequency m) \<le> 99 \<and>
     unat (DCSFrequency m) \<le> 999 \<and> unat (OffsetFrequency m) \<le> 99999999 \<and>
     unat (Mode m) \<le> 9 \<and> unat (TXFrequency m) \<le> 9999999999 \<and>
     unat (TXStepSize m) \<le> 9 \<and> unat (LockOut m) \<le> 9"

text \<open>
  \<^verbatim>\<open>advance\<close> started at index \<open>i\<close> instead of 0: the index it returns is moved by \<open>i\<close>,
  a mismatch stays \<open>-1\<close>.
\<close>

definition shiftAdvance :: "int \<Rightarrow> scanError + (int \<times> ss) \<Rightarrow> scanError + (int \<times> ss)" where
  "shiftAdvance i res =
     (case res of Inl e \<Rightarrow> Inl e | Inr (w, s) \<Rightarrow> Inr (if w < 0 then - 1 else w + i, s))"

text \<open>The format after a verb and its width; the parts of an integer operand.\<close>

definition verbRest :: "string \<Rightarrow> string" where
  "verbRest fmt = tl (snd (snd (parsenum 1 fmt)))"

fun opBits :: "'h operand \<Rightarrow> nat" where
  "opBits (UintPtr bits store) = bits"
| "opBits (StringPtr store) = 0"

fun opStore :: "'h operand \<Rightarrow> nat \<Rightarrow> 'h \<Rightarrow> 'h" where
  "opStore (UintPtr bits store) = store"
| "opStore (StringPtr store) = (\<lambda>v h. h)"

fun isUintPtr :: "'h operand \<Rightarrow> bool" where
  "isUintPtr (UintPtr bits store) = True"
| "isUintPtr (StringPtr store) = False"

text \<open>
  \<open>errorsEarly a n fmt\<close>: whenever \<^verbatim>\<open>doScanf\<close>, at the format \<open>fmt\<close> with \<open>n\<close> operands
  processed, ends with an error, it has processed fewer operands than there are.
\<close>

definition errorsEarly :: "'h operand list \<Rightarrow> nat \<Rightarrow> string \<Rightarrow> bool" where
  "errorsEarly a n fmt \<longleftrightarrow>
     (\<forall>h s k e h'. doScanf fmt a n h s = ((k, Some e), h') \<longrightarrow> k < length a)"


section \<open>Sample radios\<close>

text \<open>
  \<^verbatim>\<open>NewRadio\<close> makes a memory of 1000 zero entries on a connected port. \<open>device answers\<close>
  is a port on which no write fails and the device sends \<open>answers\<close>.
\<close>

definition NewRadio :: "port \<Rightarrow> Radio" where
  "NewRadio p = \<lparr>PortRW = p, Model = [], Memory = replicate 1000 zeroEntry\<rparr>"

definition device :: "string \<Rightarrow> port" where
  "device answers = \<lparr>incoming = answers, written = [], wfail = (\<lambda>k. False), werr = False\<rparr>"

definition channel5 :: MemoryEntry where
  "channel5 =
     zeroEntry\<lparr>Number := 5, RXFrequency := 146520000, TXFrequency := 146520000, Name := ''CALL''\<rparr>"

text \<open>
  The memory as \<^verbatim>\<open>main\<close> loads it from a dump of the occupied channels: channel 5 is
  the first entry of the dump, copied to position 0; position 5 is empty. The device
  answers three commands.
\<close>

definition compactedBank :: Radio where
  "compactedBank =
     (NewRadio (device (''ok'' @ [CR] @ ''ok'' @ [CR] @ ''ok'' @ [CR])))
       \<lparr>Memory := channel5 # replicate 999 zeroEntry\<rparr>"

text \<open>
  A memory in which channel 5 stands at position 5, as \<^verbatim>\<open>ReadMemory\<close> leaves it when
  channel 5 is the only occupied one. The device answers four lines.
\<close>

definition loadedBank :: Radio where
  "loadedBank =
     (NewRadio (device (''ok'' @ [CR] @ ''ok'' @ [CR] @ ''ok'' @ [CR] @ ''later'' @ [CR])))
       \<lparr>Memory := replicate 5 zeroEntry @ channel5 # replicate 994 zeroEntry\<rparr>"

text \<open>
  A device whose numeric line for channel 1 breaks off after the first field.
\<close>

definition brokenLine :: string where
  "brokenLine = ''ME 001,x'' @ [CR]"

definition brokenRadio :: Radio where
  "brokenRadio = NewRadio (device (brokenLine @ ''MN 001,A'' @ [CR]))"

text \<open>
  Two numeric lines: one with its 16 fields, and the same line without the last field.
\<close>

definition sampleLine :: string where
  "sampleLine = ''ME 001,0146520000,0,0,0,0,0,0,00,00,000,00000000,0,0146520000,0,0'' @ [CR]"

definition shortLine :: string where
  "shortLine = ''ME 001,0146520000,0,0,0,0,0,0,00,00,000,00000000,0,0146520000,0'' @ [CR]"

text \<open>
  A device that sends the numeric line with its 16 fields, then a name line that does
  not start with \<^verbatim>\<open>MN\<close>.
\<close>

definition namelessRadio :: Radio where
  "namelessRadio = NewRadio (device (sampleLine @ ''XX'' @ [CR]))"

text \<open>An entry whose name has a comma.\<close>

definition commaName :: MemoryEntry where
  "commaName = zeroEntry\<lparr>Number := 7, RXFrequency := 146520000, Name := ''A,B''\<rparr>"

text \<open>
  The lines the device will send, as \<^verbatim>\<open>ReadString\<close> cuts them: each ends with its
  carriage return; bytes after the last carriage return are no line.
\<close>

fun linesOf :: "string \<Rightarrow> string \<Rightarrow> string list" where
  "linesOf [] cur = []"
| "linesOf (c # cs) cur =
     (if c = CR then (rev cur @ [CR]) # linesOf cs [] else linesOf cs (c # cur))"

definition answers :: "Radio \<Rightarrow> string list" where
  "answers r = linesOf (incoming (PortRW r)) []"

text \<open>
  \<open>decoded chline nameline m\<close>: both lines decode, one after the other from the zero entry
  as \<^verbatim>\<open>ReadChannel\<close> does, and give the entry \<open>m\<close>.
\<close>

definition decoded :: "string \<Rightarrow> string \<Rightarrow> MemoryEntry \<Rightarrow> bool" where
  "decoded chline nameline m \<longleftrightarrow>
     snd (ReadChannelLine zeroEntry chline) = None \<and>
     ReadNameLine (fst (ReadChannelLine zeroEntry chline)) nameline = (m, None)"

text \<open>
  A device that reports every channel empty: it answers \<^verbatim>\<open>N\<close> to each of the 2000
  commands of \<^verbatim>\<open>ReadMemory\<close>. \<open>quiet r k\<close>: the radio \<open>r\<close> still has \<open>k\<close> such answers to
  read, its port fails no write and its memory has 1000 zero entries.
\<close>

definition emptyAnswer :: string where
  "emptyAnswer = ''N'' @ [CR]"

definition silentRadio :: Radio where
  "silentRadio = NewRadio (device (concat (replicate 2000 emptyAnswer)))"

definition quiet :: "Radio \<Rightarrow> nat \<Rightarrow> bool" where
  "quiet r k \<longleftrightarrow>
     incoming (PortRW r) = concat (replicate k emptyAnswer) \<and>
     wfail (PortRW r) = (\<lambda>k. False) \<and> \<not> werr (PortRW r) \<and>
     Memory r = replicate 1000 zeroEntry"

text \<open>The three commands of \<^verbatim>\<open>WriteChannel\<close> for the entry \<open>ch\<close>, in their order.\<close>

definition channelCommands :: "MemoryEntry \<Rightarrow> int \<Rightarrow> string list" where
  "channelCommands ch channel =
     [Sprintf (''ME %03d,C'' @ [CR]) [GoInt channel],
      WriteChannelLine ch @ [CR],
      WriteNameLine ch @ [CR]]"


section \<open>Rules for evaluating the model on given input\<close>

lemma replicate_char_numeral:
  "replicate (numeral k) (c :: char) = c # replicate (pred_numeral k) c"
  by (simp add: numeral_eq_Suc)

lemmas scan_eval =
  advance_def newScanState_def getRune_def hugeWid_def fmtSpace_def isSpace_def Let_def
  matchTrailingSpace_def consume_def accept_def notEOF_def peek_def indexRune_def
  scanNumber_def decimalDigits_def ParseUint_def scanUint_def scanPercent_def parsenum_def
  tooLarge_def isDigit_def digitVal_def Sscanf_def doScanfEnd_def doVerb_def
  SkipSpace.simps acceptAll.simps skipBlanks.simps doScanf.simps

lemmas print_eval =
  Sprintf_def parsenum_def tooLarge_def isDigit_def digitVal_def digitChar_def fmtInteger_def
  pad_def decimal.simps notModelled_def Let_def replicate_char_numeral

lemmas radio_eval =
  NewRadio_def device_def WriteString_def ReadString_def WriteReadString_def HasPrefix_def
  Let_def


section \<open>The occupied channels\<close>

lemma OccupedLoop_filter:
  "OccupedLoop ms v = v @ filter (\<lambda>m. RXFrequency m \<noteq> 0) ms"
  by (induction ms arbitrary: v) auto

text \<open>
  Claim C4. \<^verbatim>\<open>OccupedChannels\<close> returns exactly the entries of the memory whose
  \<^verbatim>\<open>RXFrequency\<close> is not 0, in the order of their positions in the memory: it is the
  memory filtered by that test, hence a subsequence of it; an entry of the memory is in
  the result if and only if its \<^verbatim>\<open>RXFrequency\<close> is not 0, whatever its other fields.
\<close>

theorem occupied_channels_filter:
  "OccupedChannels r = filter (\<lambda>m. RXFrequency m \<noteq> 0) (Memory r) \<and>
   subseq (OccupedChannels r) (Memory r) \<and>
   (m \<in> set (OccupedChannels r)) = (m \<in> set (Memory r) \<and> RXFrequency m \<noteq> 0)"
  by (simp add: OccupedChannels_def OccupedLoop_filter)


section \<open>Transactions\<close>

text \<open>
  Claim C2. When the command is written and the line read back starts with \<^verbatim>\<open>?\<close>,
  \<^verbatim>\<open>WriteReadString\<close> returns the empty string with the error \<open>Rejected\<close> carrying the
  command: it does not return success.
\<close>

theorem rejected_response:
  assumes "WriteString r command = (None, r1)"
    and "ReadString r1 = ((line, None), r2)"
    and "HasPrefix line ''?''"
  shows "WriteReadString r command = (([], Some (Rejected command)), r2)"
  using assms by (simp add: WriteReadString_def)

theorem rejected_response_witness:
  "WriteReadString (NewRadio (device (''?invalid'' @ [CR]))) (''ME 001'' @ [CR]) =
     (([], Some (Rejected (''ME 001'' @ [CR]))),
      NewRadio \<lparr>incoming = [], written = [''ME 001'' @ [CR]], wfail = (\<lambda>k. False), werr = False\<rparr>)"
proof -
  let ?cmd = "''ME 001'' @ [CR]"
  let ?line = "''?invalid'' @ [CR]"
  let ?r1 = "NewRadio \<lparr>incoming = ?line, written = [?cmd], wfail = (\<lambda>k. False), werr = False\<rparr>"
  let ?r2 = "NewRadio \<lparr>incoming = [], written = [?cmd], wfail = (\<lambda>k. False), werr = False\<rparr>"
  have w: "WriteString (NewRadio (device ?line)) ?cmd = (None, ?r1)"
    by (simp add: radio_eval)
  have rd: "ReadString ?r1 = ((?line, None), ?r2)"
    by (simp add: radio_eval)
  have p: "HasPrefix ?line ''?''"
    by (simp add: HasPrefix_def)
  show ?thesis
    by (rule rejected_response [OF w rd p])
qed

lemma WriteString_written:
  "WriteString r c = (res, r') \<Longrightarrow>
     Memory r' = Memory r \<and>
     written (PortRW r') = written (PortRW r) @ (if res = None then [c] else [])"
  by (auto simp: WriteString_def Let_def split: if_splits)

lemma ReadString_written:
  "ReadString r = (res, r') \<Longrightarrow>
     Memory r' = Memory r \<and> written (PortRW r') = written (PortRW r)"
  by (auto simp: ReadString_def Let_def split: if_splits)

lemma WriteReadString_written:
  assumes "WriteReadString r c = ((line, err), r')"
  shows "Memory r' = Memory r"
    and "err = None \<Longrightarrow> written (PortRW r') = written (PortRW r) @ [c]"
    and "written (PortRW r') = written (PortRW r) \<or>
         written (PortRW r') = written (PortRW r) @ [c]"
  using assms
  by (auto simp: WriteReadString_def split: prod.splits option.splits if_splits
      dest!: WriteString_written ReadString_written)

text \<open>
  A transaction on a port that takes the write, when the device's next line is \<open>a\<close> with
  its carriage return and does not start with \<^verbatim>\<open>?\<close>: the command is written, the line
  is taken from the input and returned.
\<close>

lemma ReadString_line:
  assumes "incoming (PortRW r) = a @ [CR] @ rest" and "CR \<notin> set a"
  shows "ReadString r = ((a @ [CR], None), r\<lparr>PortRW := (PortRW r)\<lparr>incoming := rest\<rparr>\<rparr>)"
proof -
  have "takeWhile (\<lambda>c. c \<noteq> CR) (a @ [CR] @ rest) = a"
    using assms(2) by (induction a) auto
  moreover have "dropWhile (\<lambda>c. c \<noteq> CR) (a @ [CR] @ rest) = CR # rest"
    using assms(2) by (induction a) auto
  ultimately show ?thesis
    using assms(1) by (simp add: ReadString_def Let_def)
qed

lemma WriteReadString_answer:
  assumes "\<not> werr (PortRW r)" and "\<not> wfail (PortRW r) (length (written (PortRW r)))"
    and "incoming (PortRW r) = a @ [CR] @ rest" and "CR \<notin> set a"
    and "\<not> HasPrefix (a @ [CR]) ''?''"
  shows "WriteReadString r c =
           ((a @ [CR], None),
            r\<lparr>PortRW := (PortRW r)\<lparr>incoming := rest, written := written (PortRW r) @ [c]\<rparr>\<rparr>)"
proof -
  let ?r1 = "r\<lparr>PortRW := (PortRW r)\<lparr>written := written (PortRW r) @ [c]\<rparr>\<rparr>"
  have w: "WriteString r c = (None, ?r1)"
    using assms(1,2) by (simp add: WriteString_def Let_def)
  have "incoming (PortRW ?r1) = a @ [CR] @ rest"
    using assms(3) by simp
  from ReadString_line [OF this assms(4)]
  have rd: "ReadString ?r1 = ((a @ [CR], None), ?r1\<lparr>PortRW := (PortRW ?r1)\<lparr>incoming := rest\<rparr>\<rparr>)" .
  show ?thesis
    using assms(5) by (simp add: WriteReadString_def w rd)
qed


section \<open>Reading a channel\<close>

lemma brokenLine_decode:
  "ReadChannelLine zeroEntry brokenLine =
     (zeroEntry\<lparr>Number := 1\<rparr>, Some (MalformedChannelLine brokenLine))"
  by (simp add: ReadChannelLine_def brokenLine_def scan_eval MEFormat_def
      StructFieldPointers_def)

lemma sampleLine_decode:
  "ReadChannelLine zeroEntry sampleLine =
     (zeroEntry\<lparr>Number := 1, RXFrequency := 146520000, TXFrequency := 146520000\<rparr>, None)"
  by (simp add: ReadChannelLine_def sampleLine_def scan_eval MEFormat_def
      StructFieldPointers_def zeroEntry_def)

text \<open>
  Claim C10. The four steps of \<^verbatim>\<open>ReadChannel\<close> are the transaction for the numeric
  line, the transaction for the name line on the radio as the first one leaves it, the
  decoding of the numeric line into the zero entry, and the decoding of the name line into
  the entry the numeric line gave. Given what each step returns: when any of them returns
  an error, \<^verbatim>\<open>ReadChannel\<close> returns the zero entry together with an error, never the
  entry that the decoders have filled; the error is that of the first step that failed,
  wrapped by \<^verbatim>\<open>ReadChannel\<close>, and the steps after it are not run. When no step fails it
  returns the decoded entry and no error.
\<close>

theorem ReadChannel_atomic:
  assumes "WriteReadString r (Sprintf MECommandFormat [GoInt channel]) = ((chline, e1), r1)"
    and "WriteReadString r1 (Sprintf MNCommandFormat [GoInt channel]) = ((nameline, e2), r2)"
    and "ReadChannelLine zeroEntry chline = (m1, e3)"
    and "ReadNameLine m1 nameline = (m2, e4)"
  shows "(e1 \<noteq> None \<or> e2 \<noteq> None \<or> e3 \<noteq> None \<or> e4 \<noteq> None \<longrightarrow>
            (\<exists>err. fst (ReadChannel r channel) = (zeroEntry, Some err))) \<and>
         (\<forall>err. e1 = Some err \<longrightarrow>
            ReadChannel r channel = ((zeroEntry, Some (ReadingChannel err)), r1)) \<and>
         (\<forall>err. e1 = None \<and> e2 = Some err \<longrightarrow>
            ReadChannel r channel = ((zeroEntry, Some (ReadingChannelName err)), r2)) \<and>
         (\<forall>err. e1 = None \<and> e2 = None \<and> e3 = Some err \<longrightarrow>
            ReadChannel r channel = ((zeroEntry, Some (ParsingChannelLine err)), r2)) \<and>
         (\<forall>err. e1 = None \<and> e2 = None \<and> e3 = None \<and> e4 = Some err \<longrightarrow>
            ReadChannel r channel = ((zeroEntry, Some (ParsingNameLine err)), r2)) \<and>
         (e1 = None \<and> e2 = None \<and> e3 = None \<and> e4 = None \<longrightarrow>
            ReadChannel r channel = ((m2, None), r2))"
  using assms by (auto simp: ReadChannel_def split: option.splits)

text \<open>
  Two runs. On the broken line \<^verbatim>\<open>ReadChannelLine\<close> fails after it has stored the
  number 1 in the entry. On the other device the numeric line decodes, filling the number
  and the two frequencies, and the name line fails. Both times \<^verbatim>\<open>ReadChannel\<close> returns
  the zero entry with the error of the step.
\<close>

theorem ReadChannel_atomic_witness:
  "fst (ReadChannelLine zeroEntry brokenLine) = zeroEntry\<lparr>Number := 1\<rparr> \<and>
   fst (ReadChannel brokenRadio 1) =
     (zeroEntry, Some (ParsingChannelLine (MalformedChannelLine brokenLine))) \<and>
   fst (ReadChannelLine zeroEntry sampleLine) =
     zeroEntry\<lparr>Number := 1, RXFrequency := 146520000, TXFrequency := 146520000\<rparr> \<and>
   fst (ReadChannel namelessRadio 1) =
     (zeroEntry, Some (ParsingNameLine (MalformedNameLine ''XX'')))"
proof -
  let ?c1 = "Sprintf MECommandFormat [GoInt 1]"
  let ?c2 = "Sprintf MNCommandFormat [GoInt 1]"
  let ?b1 = "NewRadio \<lparr>incoming = ''MN 001,A'' @ [CR], written = [?c1],
                        wfail = (\<lambda>k. False), werr = False\<rparr>"
  let ?b2 = "NewRadio \<lparr>incoming = [], written = [?c1, ?c2], wfail = (\<lambda>k. False), werr = False\<rparr>"
  let ?n1 = "NewRadio \<lparr>incoming = ''XX'' @ [CR], written = [?c1],
                        wfail = (\<lambda>k. False), werr = False\<rparr>"
  let ?m = "zeroEntry\<lparr>Number := 1, RXFrequency := 146520000, TXFrequency := 146520000\<rparr>"
  have b1: "WriteReadString brokenRadio ?c1 = ((brokenLine, None), ?b1)"
    by (simp add: brokenRadio_def brokenLine_def radio_eval)
  have b2: "WriteReadString ?b1 ?c2 = ((''MN 001,A'' @ [CR], None), ?b2)"
    by (simp add: radio_eval)
  have b4: "ReadNameLine (zeroEntry\<lparr>Number := 1\<rparr>) (''MN 001,A'' @ [CR]) =
              (zeroEntry\<lparr>Number := 1, Name := ''A''\<rparr>, None)"
    by (simp add: ReadNameLine_def TrimSuffix_def Split_def HasPrefix_def)
  have n1: "WriteReadString namelessRadio ?c1 = ((sampleLine, None), ?n1)"
    by (simp add: namelessRadio_def sampleLine_def radio_eval)
  have n2: "WriteReadString ?n1 ?c2 = ((''XX'' @ [CR], None), ?b2)"
    by (simp add: radio_eval)
  have n4: "ReadNameLine ?m (''XX'' @ [CR]) = (?m, Some (MalformedNameLine ''XX''))"
    by (simp add: ReadNameLine_def TrimSuffix_def Split_def HasPrefix_def)
  show ?thesis
    using ReadChannel_atomic [OF b1 b2 brokenLine_decode b4]
      ReadChannel_atomic [OF n1 n2 sampleLine_decode n4]
    by (simp add: brokenLine_decode sampleLine_decode)
qed


section \<open>Writing a channel\<close>

lemma findChannel_find:
  "findChannel ms n =
     (case List.find (\<lambda>m. Number m = n) ms of None \<Rightarrow> zeroEntry | Some m \<Rightarrow> m)"
  by (induction ms) auto

lemma findChannel_replicate_zero:
  "findChannel (replicate n zeroEntry) k = zeroEntry"
  by (induction n) auto

lemma WriteChannel_empty:
  "RXFrequency (findChannel (Memory r) (word_of_int channel)) = 0 \<Longrightarrow>
   WriteChannel r channel = (Some (EmptyChannel channel), r)"
  by (simp add: WriteChannel_def)

lemma WriteChannel_not_EmptyChannel:
  "RXFrequency (findChannel (Memory r) (word_of_int channel)) \<noteq> 0 \<Longrightarrow>
   fst (WriteChannel r channel) \<noteq> Some (EmptyChannel c)"
  by (auto simp: WriteChannel_def Let_def split: prod.splits option.splits)

lemma WriteChannel_success:
  assumes "WriteChannel r channel = (None, r')"
  shows "written (PortRW r') =
         written (PortRW r) @ channelCommands (findChannel (Memory r) (word_of_int channel)) channel"
  using assms
  by (auto simp: WriteChannel_def Let_def channelCommands_def
      split: prod.splits option.splits if_splits dest!: WriteReadString_written(2))

text \<open>
  Whatever the device answers, what \<^verbatim>\<open>WriteChannel\<close> writes for an occupied entry is a
  prefix of its three commands: a transaction that fails ends the sequence.
\<close>

lemma WriteChannel_prefix:
  assumes "RXFrequency (findChannel (Memory r) (word_of_int channel)) \<noteq> 0"
  shows "\<exists>k\<le>3. written (PortRW (snd (WriteChannel r channel))) =
           written (PortRW r) @
           take k (channelCommands (findChannel (Memory r) (word_of_int channel)) channel)"
proof -
  let ?ch = "findChannel (Memory r) (word_of_int channel)"
  let ?cs = "channelCommands ?ch channel"
  obtain l1 e1 r1 where s1: "WriteReadString r (?cs ! 0) = ((l1, e1), r1)"
    by (metis prod.collapse)
  obtain l2 e2 r2 where s2: "WriteReadString r1 (?cs ! 1) = ((l2, e2), r2)"
    by (metis prod.collapse)
  obtain l3 e3 r3 where s3: "WriteReadString r2 (?cs ! 2) = ((l3, e3), r3)"
    by (metis prod.collapse)
  note w1 = WriteReadString_written(2,3) [OF s1]
  note w2 = WriteReadString_written(2,3) [OF s2]
  note w3 = WriteReadString_written(2,3) [OF s3]
  show ?thesis
  proof (cases e1)
    case (Some a)
    then have "snd (WriteChannel r channel) = r1"
      using assms s1 by (simp add: WriteChannel_def Let_def channelCommands_def)
    with w1(2) show ?thesis
      by (auto simp: channelCommands_def intro: exI [of _ 0] exI [of _ 1])
  next
    case None
    note n1 = this
    show ?thesis
    proof (cases e2)
      case (Some a)
      then have "snd (WriteChannel r channel) = r2"
        using assms s1 s2 n1 by (simp add: WriteChannel_def Let_def channelCommands_def)
      with w1(1) [OF n1] w2(2) show ?thesis
        by (auto simp: channelCommands_def intro: exI [of _ 1] exI [of _ 2])
    next
      case None
      then have "snd (WriteChannel r channel) = r3"
        using assms s1 s2 s3 n1
        by (auto simp: WriteChannel_def Let_def channelCommands_def split: option.splits)
      with w1(1) [OF n1] w2(1) [OF None] w3(2) show ?thesis
        by (auto simp: channelCommands_def intro: exI [of _ 2] exI [of _ 3])
    qed
  qed
qed

lemma channel5_commands:
  "channelCommands channel5 5 =
     [''ME 005,C'' @ [CR],
      ''ME 005,0146520000,0,0,0,0,0,0,00,00,000,00000000,0,0146520000,0,0'' @ [CR],
      ''MN 005,CALL'' @ [CR]]"
  by (simp add: channelCommands_def print_eval WriteChannelLine_def WriteNameLine_def
      StructFieldValues_def MEFormat_def MNFormat_def channel5_def zeroEntry_def)

lemma compactedBank_find:
  "findChannel (Memory compactedBank) 5 = channel5"
  by (simp add: compactedBank_def NewRadio_def channel5_def zeroEntry_def)

lemma compactedBank_write:
  "fst (WriteChannel compactedBank 5) = None"
  by (simp add: compactedBank_def WriteChannel_def radio_eval channel5_def zeroEntry_def)

lemma findChannel_skip:
  "k \<noteq> 0 \<Longrightarrow> findChannel (replicate n zeroEntry @ ms) k = findChannel ms k"
  by (induction n) (auto simp: zeroEntry_def)

lemma loadedBank_slot:
  "length (Memory loadedBank) = 1000 \<and> Memory loadedBank ! 5 = channel5"
  by (simp add: loadedBank_def nth_append)

lemma loadedBank_find:
  "findChannel (Memory loadedBank) 5 = channel5"
proof -
  have "Number channel5 = 5"
    by (simp add: channel5_def)
  then show ?thesis
    by (simp add: loadedBank_def findChannel_skip)
qed

lemma WriteChannel_steps:
  assumes "RXFrequency (findChannel (Memory r) (word_of_int channel)) \<noteq> 0"
    and "WriteReadString r (Sprintf (''ME %03d,C'' @ [CR]) [GoInt channel]) = ((l1, None), r1)"
    and "WriteReadString r1 (WriteChannelLine (findChannel (Memory r) (word_of_int channel)) @ [CR]) =
           ((l2, None), r2)"
    and "WriteReadString r2 (WriteNameLine (findChannel (Memory r) (word_of_int channel)) @ [CR]) =
           ((l3, None), r3)"
  shows "WriteChannel r channel = (None, r3)"
  using assms by (simp add: WriteChannel_def Let_def)

text \<open>
  Claim C3. Let \<open>ch\<close> be the entry \<^verbatim>\<open>WriteChannel\<close> finds for the channel. When its
  \<^verbatim>\<open>RXFrequency\<close> is 0, \<^verbatim>\<open>WriteChannel\<close> fails with \<open>EmptyChannel\<close> and leaves the radio,
  and so the port, as it was: nothing written and nothing read, no transaction. When it is
  not 0, on a port that takes every write and a device that answers each command with a
  line that does not start with \<^verbatim>\<open>?\<close> (the lines \<open>a1\<close>, \<open>a2\<close>, \<open>a3\<close>, each followed by its
  carriage return, then \<open>rest\<close>), \<^verbatim>\<open>WriteChannel\<close> succeeds; it has written exactly three
  commands, the clear command, the numeric line and the name line of \<open>ch\<close> in this order,
  and has read exactly the three answers, leaving \<open>rest\<close> in the input.
\<close>

theorem WriteChannel_sequencing:
  "(let ch = findChannel (Memory r) (word_of_int channel); p = PortRW r in
    (RXFrequency ch = 0 \<longrightarrow> WriteChannel r channel = (Some (EmptyChannel channel), r)) \<and>
    (RXFrequency ch \<noteq> 0 \<and> \<not> werr p \<and> (\<forall>k. \<not> wfail p k) \<and>
     incoming p = a1 @ [CR] @ a2 @ [CR] @ a3 @ [CR] @ rest \<and>
     CR \<notin> set a1 \<and> CR \<notin> set a2 \<and> CR \<notin> set a3 \<and>
     \<not> HasPrefix (a1 @ [CR]) ''?'' \<and> \<not> HasPrefix (a2 @ [CR]) ''?'' \<and>
     \<not> HasPrefix (a3 @ [CR]) ''?'' \<longrightarrow>
     WriteChannel r channel =
       (None,
        r\<lparr>PortRW := p\<lparr>incoming := rest,
                       written := written p @
                         [Sprintf (''ME %03d,C'' @ [CR]) [GoInt channel],
                          WriteChannelLine ch @ [CR],
                          WriteNameLine ch @ [CR]]\<rparr>\<rparr>)))"
proof -
  let ?ch = "findChannel (Memory r) (word_of_int channel)"
  let ?p = "PortRW r"
  let ?c1 = "Sprintf (''ME %03d,C'' @ [CR]) [GoInt channel]"
  let ?c2 = "WriteChannelLine ?ch @ [CR]"
  let ?c3 = "WriteNameLine ?ch @ [CR]"
  have empty: "RXFrequency ?ch = 0 \<Longrightarrow> WriteChannel r channel = (Some (EmptyChannel channel), r)"
    by (simp add: WriteChannel_def)
  have full: "WriteChannel r channel =
       (None, r\<lparr>PortRW := ?p\<lparr>incoming := rest, written := written ?p @ [?c1, ?c2, ?c3]\<rparr>\<rparr>)"
    if occ: "RXFrequency ?ch \<noteq> 0" and we: "\<not> werr ?p" and wf: "\<forall>k. \<not> wfail ?p k"
      and inc: "incoming ?p = a1 @ [CR] @ a2 @ [CR] @ a3 @ [CR] @ rest"
      and cr: "CR \<notin> set a1" "CR \<notin> set a2" "CR \<notin> set a3"
      and q: "\<not> HasPrefix (a1 @ [CR]) ''?''" "\<not> HasPrefix (a2 @ [CR]) ''?''"
        "\<not> HasPrefix (a3 @ [CR]) ''?''"
  proof -
    let ?r1 = "r\<lparr>PortRW := ?p\<lparr>incoming := a2 @ [CR] @ a3 @ [CR] @ rest,
                                written := written ?p @ [?c1]\<rparr>\<rparr>"
    let ?r2 = "?r1\<lparr>PortRW := (PortRW ?r1)\<lparr>incoming := a3 @ [CR] @ rest,
                                written := written (PortRW ?r1) @ [?c2]\<rparr>\<rparr>"
    let ?r3 = "?r2\<lparr>PortRW := (PortRW ?r2)\<lparr>incoming := rest,
                                written := written (PortRW ?r2) @ [?c3]\<rparr>\<rparr>"
    have t1: "WriteReadString r ?c1 = ((a1 @ [CR], None), ?r1)"
      using we wf inc cr(1) q(1) by (intro WriteReadString_answer) simp_all
    have t2: "WriteReadString ?r1 ?c2 = ((a2 @ [CR], None), ?r2)"
      using we wf cr(2) q(2) by (intro WriteReadString_answer) simp_all
    have t3: "WriteReadString ?r2 ?c3 = ((a3 @ [CR], None), ?r3)"
      using we wf cr(3) q(3) by (intro WriteReadString_answer) simp_all
    have "WriteChannel r channel = (None, ?r3)"
      by (rule WriteChannel_steps [OF occ t1 t2 t3])
    then show ?thesis by simp
  qed
  show ?thesis
    unfolding Let_def using empty full by blast
qed

text \<open>
  Channel 5 stands at position 5 and is occupied; the device answers three lines and has
  a fourth to send. And a new radio, whose memory is empty.
\<close>

theorem WriteChannel_sequencing_witness:
  "Memory loadedBank ! 5 = channel5 \<and>
   incoming (PortRW loadedBank) = ''ok'' @ [CR] @ ''ok'' @ [CR] @ ''ok'' @ [CR] @ ''later'' @ [CR] \<and>
   WriteChannel loadedBank 5 =
     (None,
      loadedBank\<lparr>PortRW :=
        \<lparr>incoming = ''later'' @ [CR],
         written =
           [''ME 005,C'' @ [CR],
            ''ME 005,0146520000,0,0,0,0,0,0,00,00,000,00000000,0,0146520000,0,0'' @ [CR],
            ''MN 005,CALL'' @ [CR]],
         wfail = (\<lambda>k. False), werr = False\<rparr>\<rparr>) \<and>
   WriteChannel (NewRadio (device [])) 7 = (Some (EmptyChannel 7), NewRadio (device []))"
proof -
  have p: "PortRW loadedBank =
             \<lparr>incoming = ''ok'' @ [CR] @ ''ok'' @ [CR] @ ''ok'' @ [CR] @ ''later'' @ [CR],
              written = [], wfail = (\<lambda>k. False), werr = False\<rparr>"
    by (simp add: loadedBank_def NewRadio_def device_def)
  have rx: "RXFrequency channel5 \<noteq> 0"
    by (simp add: channel5_def)
  have e: "RXFrequency (findChannel (Memory (NewRadio (device []))) 7) = 0"
    by (simp add: NewRadio_def findChannel_replicate_zero) (simp add: zeroEntry_def)
  note c = channel5_commands [unfolded channelCommands_def, simplified]
  have "WriteChannel loadedBank 5 =
     (None,
      loadedBank\<lparr>PortRW :=
        \<lparr>incoming = ''later'' @ [CR],
         written =
           [''ME 005,C'' @ [CR],
            ''ME 005,0146520000,0,0,0,0,0,0,00,00,000,00000000,0,0146520000,0,0'' @ [CR],
            ''MN 005,CALL'' @ [CR]],
         wfail = (\<lambda>k. False), werr = False\<rparr>\<rparr>)"
    using WriteChannel_sequencing [of loadedBank 5 "''ok''" "''ok''" "''ok''" "''later'' @ [CR]"]
    by (simp add: Let_def loadedBank_find p rx HasPrefix_def c)
  moreover have "WriteChannel (NewRadio (device [])) 7 = (Some (EmptyChannel 7), NewRadio (device []))"
    using WriteChannel_sequencing [of "NewRadio (device [])" 7] e
    by (simp add: Let_def)
  ultimately show ?thesis
    by (simp add: loadedBank_slot p)
qed


lemma compactedBank_slots:
  "length (Memory compactedBank) = 1000 \<and> Memory compactedBank ! 0 = channel5 \<and>
   Memory compactedBank ! 5 = zeroEntry"
  by (simp add: compactedBank_def NewRadio_def)

lemma compactedBank_first:
  "List.find (\<lambda>m. Number m = 5) (Memory compactedBank) = Some channel5"
  by (simp add: compactedBank_def NewRadio_def channel5_def)

text \<open>
  Claim C8, as stated, fails: \<^verbatim>\<open>WriteChannel\<close> does not look at position \<open>n\<close> of the
  memory. In the memory loaded by \<^verbatim>\<open>main\<close>, position 5 is empty and the entry numbered 5
  stands at position 0: \<^verbatim>\<open>WriteChannel(5)\<close> does not fail, and writes the entry of
  position 0.
\<close>

theorem WriteChannel_slot_counterexample:
  "length (Memory compactedBank) = 1000 \<and>
   RXFrequency (Memory compactedBank ! 5) = 0 \<and>
   fst (WriteChannel compactedBank 5) = None \<and>
   written (PortRW (snd (WriteChannel compactedBank 5))) =
     channelCommands (Memory compactedBank ! 0) 5"
proof -
  have "written (PortRW (snd (WriteChannel compactedBank 5))) =
        written (PortRW compactedBank) @ channelCommands channel5 5"
    using WriteChannel_success [of compactedBank 5 "snd (WriteChannel compactedBank 5)"]
      compactedBank_write compactedBank_find
    by (metis prod.collapse word_of_int_numeral)
  moreover have "written (PortRW compactedBank) = []"
    by (simp add: compactedBank_def NewRadio_def device_def)
  ultimately show ?thesis
    by (simp add: compactedBank_slots compactedBank_write) (simp add: zeroEntry_def)
qed

text \<open>
  Claim C8, amended. \<^verbatim>\<open>WriteChannel(n)\<close> selects the first entry of the memory, in the
  order of positions, whose \<^verbatim>\<open>Number\<close> field is \<^verbatim>\<open>uint16(n)\<close>. It fails with
  \<open>EmptyChannel\<close> exactly when there is no such entry or the \<^verbatim>\<open>RXFrequency\<close> of that
  entry is 0; and when it succeeds, the commands it has written are those of that entry.
\<close>

theorem WriteChannel_lookup_by_number:
  "(fst (WriteChannel r channel) = Some (EmptyChannel channel)) =
     (case List.find (\<lambda>m. Number m = word_of_int channel) (Memory r) of
        None \<Rightarrow> True
      | Some m \<Rightarrow> RXFrequency m = 0) \<and>
   (fst (WriteChannel r channel) = None \<longrightarrow>
      (\<exists>m. List.find (\<lambda>m. Number m = word_of_int channel) (Memory r) = Some m \<and>
           RXFrequency m \<noteq> 0 \<and>
           written (PortRW (snd (WriteChannel r channel))) =
             written (PortRW r) @ channelCommands m channel))"
proof (cases "RXFrequency (findChannel (Memory r) (word_of_int channel)) = 0")
  case True
  have z: "RXFrequency zeroEntry = 0"
    by (simp add: zeroEntry_def)
  from True have "WriteChannel r channel = (Some (EmptyChannel channel), r)"
    by (rule WriteChannel_empty)
  with True z show ?thesis
    by (auto simp: findChannel_find split: option.splits)
next
  case False
  have z: "RXFrequency zeroEntry = 0"
    by (simp add: zeroEntry_def)
  from False z obtain m where
    m: "List.find (\<lambda>m. Number m = word_of_int channel) (Memory r) = Some m"
      "findChannel (Memory r) (word_of_int channel) = m"
    by (auto simp: findChannel_find split: option.splits)
  have "fst (WriteChannel r channel) = None \<Longrightarrow>
        written (PortRW (snd (WriteChannel r channel))) =
        written (PortRW r) @ channelCommands m channel"
    using WriteChannel_success [of r channel "snd (WriteChannel r channel)"] m(2)
    by (metis prod.collapse)
  with False m WriteChannel_not_EmptyChannel [OF False, of channel] show ?thesis
    by simp
qed

theorem WriteChannel_lookup_by_number_witness:
  "List.find (\<lambda>m. Number m = word_of_int 5) (Memory compactedBank) = Some channel5 \<and>
   fst (WriteChannel compactedBank 5) = None \<and>
   written (PortRW (snd (WriteChannel compactedBank 5))) =
     written (PortRW compactedBank) @ channelCommands channel5 5"
  using WriteChannel_lookup_by_number [of compactedBank 5]
  by (simp add: compactedBank_first compactedBank_write)


section \<open>Decoding the numeric line\<close>

text \<open>
  Claim C6. On the line
  \<^verbatim>\<open>ME 001,0146520000,0,0,0,0,0,0,00,00,000,00000000,0,0146520000,0,0\<close> followed by a
  carriage return, \<^verbatim>\<open>ReadChannelLine\<close> succeeds on any entry and leaves it with number 1,
  both frequencies 146520000 and every other numeric field 0: the second field of the
  line went to \<^verbatim>\<open>RXFrequency\<close> and the fourteenth to \<^verbatim>\<open>TXFrequency\<close>. The name is not
  touched.
\<close>

theorem sample_line_decodes:
  "ReadChannelLine m sampleLine =
     (zeroEntry\<lparr>Number := 1, RXFrequency := 146520000, TXFrequency := 146520000,
        Name := Name m\<rparr>, None)"
  by (cases m)
    (simp add: ReadChannelLine_def sampleLine_def scan_eval MEFormat_def
      StructFieldPointers_def zeroEntry_def)


section \<open>The name line\<close>

lemma digitChar_digit: "d < 10 \<Longrightarrow> digitChar d \<in> set ''0123456789''"
proof -
  assume "d < 10"
  then have "d \<in> {0, 1, 2, 3, 4, 5, 6, 7, 8, 9}" by auto
  then show ?thesis by (auto simp: digitChar_def)
qed

lemma decimal_digits: "set (decimal u) \<subseteq> set ''0123456789''"
proof (induction u rule: decimal.induct)
  case (1 u)
  show ?case
  proof (cases "u < 10")
    case True
    then show ?thesis
      using digitChar_digit [of u] by (simp add: decimal.simps [of u])
  next
    case False
    then have "set (decimal (u div 10)) \<subseteq> set ''0123456789''"
      by (rule 1)
    moreover have "digitChar (u mod 10) \<in> set ''0123456789''"
      by (rule digitChar_digit) simp
    ultimately show ?thesis
      using False by (simp add: decimal.simps [of u])
  qed
qed

lemma fmtInteger_digits:
  "set (fmtInteger True True wid False u) \<subseteq> insert CHR '' '' (set ''0123456789'')"
proof -
  have z: "CHR ''0'' \<in> set ''0123456789''"
    by simp
  have "set (replicate k CHR ''0'' @ decimal u) \<subseteq> set ''0123456789''" for k
    using decimal_digits [of u] z by (auto simp del: set_simps)
  then show ?thesis
    unfolding fmtInteger_def pad_def Let_def by (auto simp del: set_simps)
qed

lemma name_line_format:
  "Sprintf MNFormat [U16 n, Str s] = ''MN '' @ fmtInteger True True 3 False (unat n) @ '','' @ s"
  by (simp add: Sprintf_def MNFormat_def parsenum_def isDigit_def digitVal_def tooLarge_def)

lemma splitOn_hd: "hd (splitOn sep xs cur) = rev cur @ takeWhile (\<lambda>c. c \<noteq> sep) xs"
  by (induction xs arbitrary: cur) auto

lemma splitOn_prefix:
  "sep \<notin> set a \<Longrightarrow> splitOn sep (a @ sep # b) cur = (rev cur @ a) # splitOn sep b []"
  by (induction a arbitrary: cur) auto

lemma splitOn_nonempty: "splitOn sep xs cur \<noteq> []"
  by (induction xs arbitrary: cur) auto

lemma TrimSuffix_append:
  "b \<noteq> [] \<Longrightarrow> TrimSuffix (a @ b) [c] = a @ TrimSuffix b [c]"
  by (cases b rule: rev_cases) (auto simp: TrimSuffix_def)

lemma TrimSuffix_other: "a = [] \<or> last a \<noteq> c \<Longrightarrow> TrimSuffix a [c] = a"
  by (cases a rule: rev_cases) (auto simp: TrimSuffix_def)

lemma name_line_decode:
  assumes "CHR '','' \<notin> set p" and "HasPrefix p ''MN''"
  shows "ReadNameLine m (p @ CHR '','' # n) =
           (m\<lparr>Name := takeWhile (\<lambda>c. c \<noteq> CHR '','') (TrimSuffix n [CR])\<rparr>, None)"
proof -
  let ?line = "p @ CHR '','' # n"
  let ?n = "TrimSuffix n [CR]"
  have ne: "?line \<noteq> ''N'' @ [CR]"
    using assms(2) by (cases p) (auto simp: HasPrefix_def)
  have trim: "TrimSuffix ?line [CR] = p @ CHR '','' # ?n"
  proof (cases "n = []")
    case True
    then show ?thesis
      using TrimSuffix_other [of "p @ '',''" CR] by (simp add: TrimSuffix_def)
  next
    case False
    then show ?thesis
      using TrimSuffix_append [of n "p @ '',''" CR] by simp
  qed
  have split: "Split (TrimSuffix ?line [CR]) CHR '','' = p # splitOn CHR '','' ?n []"
    using splitOn_prefix [OF assms(1), of ?n "[]"] by (simp add: Split_def trim)
  obtain x xs where xs: "splitOn CHR '','' ?n [] = x # xs"
    using splitOn_nonempty [of "CHR '',''" ?n "[]"] by (cases "splitOn CHR '','' ?n []") auto
  have x: "x = takeWhile (\<lambda>c. c \<noteq> CHR '','') ?n"
    using splitOn_hd [of "CHR '',''" ?n "[]"] xs by simp
  have "ReadNameLine m ?line =
          (if \<not> HasPrefix p ''MN'' then (m, Some (MalformedNameLine (TrimSuffix ?line [CR])))
           else if x = [] then (m\<lparr>Name := []\<rparr>, None) else (m\<lparr>Name := x\<rparr>, None))"
    unfolding ReadNameLine_def Let_def split xs using ne by simp
  then show ?thesis
    using assms(2) x by simp
qed

text \<open>
  What the round trip gives for any name: its first 8 bytes, less a final carriage
  return, up to the first comma.
\<close>

lemma name_roundtrip_general:
  "ReadNameLine m (WriteNameLine e) =
     (m\<lparr>Name := takeWhile (\<lambda>c. c \<noteq> CHR '','') (TrimSuffix (take 8 (Name e)) [CR])\<rparr>, None)"
proof -
  let ?p = "''MN '' @ fmtInteger True True 3 False (unat (Number e))"
  have w: "WriteNameLine e = ?p @ CHR '','' # take 8 (Name e)"
    by (simp add: WriteNameLine_def Let_def name_line_format)
  have c: "CHR '','' \<notin> set ?p"
    using fmtInteger_digits [of 3 "unat (Number e)"] by auto
  have h: "HasPrefix ?p ''MN''"
    by (simp add: HasPrefix_def)
  show ?thesis
    unfolding w by (rule name_line_decode [OF c h])
qed

text \<open>
  Claim C7, amended. Let \<open>n\<close> be the name of the entry cut to its first 8 bytes (the
  name itself when it has at most 8). When \<open>n\<close> has no comma and does not end with a
  carriage return, \<^verbatim>\<open>ReadNameLine\<close> on the line of \<^verbatim>\<open>WriteNameLine\<close> succeeds and sets
  the name to \<open>n\<close>.
\<close>

theorem name_roundtrip:
  assumes "CHR '','' \<notin> set (take 8 (Name e))"
    and "take 8 (Name e) = [] \<or> last (take 8 (Name e)) \<noteq> CR"
  shows "ReadNameLine m (WriteNameLine e) = (m\<lparr>Name := take 8 (Name e)\<rparr>, None)"
proof -
  have "TrimSuffix (take 8 (Name e)) [CR] = take 8 (Name e)"
    using assms(2) by (rule TrimSuffix_other)
  moreover have "takeWhile (\<lambda>c. c \<noteq> CHR '','') (take 8 (Name e)) = take 8 (Name e)"
    using assms(1) by (auto simp: takeWhile_eq_all_conv)
  ultimately show ?thesis
    by (simp add: name_roundtrip_general)
qed

text \<open>
  Claim C7, as stated, fails on a name with a comma: \<^verbatim>\<open>ReadNameLine\<close> splits the line
  at every comma and keeps the second piece only.
\<close>

theorem name_roundtrip_counterexample:
  "length (Name commaName) \<le> 8 \<and>
   Name (fst (ReadNameLine zeroEntry (WriteNameLine commaName))) = ''A'' \<and>
   Name (fst (ReadNameLine zeroEntry (WriteNameLine commaName))) \<noteq> Name commaName"
  by (simp add: name_roundtrip_general) (simp add: commaName_def TrimSuffix_def)

theorem name_roundtrip_witness:
  "ReadNameLine zeroEntry (WriteNameLine channel5) = (zeroEntry\<lparr>Name := ''CALL''\<rparr>, None) \<and>
   ReadNameLine zeroEntry (WriteNameLine (channel5\<lparr>Name := ''LONGERNAME''\<rparr>)) = (zeroEntry\<lparr>Name := ''LONGERNA''\<rparr>, None)"
  using name_roundtrip [of channel5 zeroEntry] name_roundtrip [of "channel5\<lparr>Name := ''LONGERNAME''\<rparr>" zeroEntry]
  by (simp add: channel5_def)


section \<open>Reading the memory\<close>

lemma linesOf_first:
  "CR \<in> set s \<Longrightarrow>
   linesOf s cur =
     (rev cur @ takeWhile (\<lambda>c. c \<noteq> CR) s @ [CR]) # linesOf (tl (dropWhile (\<lambda>c. c \<noteq> CR) s)) []"
  by (induction s arbitrary: cur) auto

lemma WriteString_incoming:
  "WriteString r c = (res, r') \<Longrightarrow> incoming (PortRW r') = incoming (PortRW r)"
  by (auto simp: WriteString_def Let_def split: if_splits)

lemma ReadString_answers:
  "ReadString r = ((line, None), r') \<Longrightarrow> answers r = line # answers r' \<and> Memory r' = Memory r"
  by (auto simp: ReadString_def Let_def answers_def linesOf_first split: if_splits)

lemma WriteReadString_answers:
  assumes "WriteReadString r c = ((line, None), r')"
  shows "answers r = line # answers r' \<and> Memory r' = Memory r"
proof -
  from assms obtain r1 where w: "WriteString r c = (None, r1)"
    and rd: "ReadString r1 = ((line, None), r')"
    by (auto simp: WriteReadString_def split: prod.splits option.splits if_splits)
  from w have "answers r1 = answers r" "Memory r1 = Memory r"
    using WriteString_incoming [OF w] WriteString_written [OF w] by (simp_all add: answers_def)
  with ReadString_answers [OF rd] show ?thesis by simp
qed

lemma ReadChannel_answers:
  assumes "ReadChannel r ch = ((m, None), r')"
  shows "\<exists>l1 l2. answers r = l1 # l2 # answers r' \<and> decoded l1 l2 m \<and> Memory r' = Memory r"
proof -
  from assms obtain l1 r1 l2 m1 where
    a: "WriteReadString r (Sprintf MECommandFormat [GoInt ch]) = ((l1, None), r1)"
    and b: "WriteReadString r1 (Sprintf MNCommandFormat [GoInt ch]) = ((l2, None), r')"
    and c: "ReadChannelLine zeroEntry l1 = (m1, None)"
    and d: "ReadNameLine m1 l2 = (m, None)"
    by (auto simp: ReadChannel_def split: prod.splits option.splits)
  from WriteReadString_answers [OF a] WriteReadString_answers [OF b] c d show ?thesis
    by (auto simp: decoded_def)
qed

lemma ReadMemoryLoop_success:
  "ReadMemoryLoop i r = (None, r') \<Longrightarrow>
   length (Memory r') = length (Memory r) \<and>
   (\<forall>j<i. Memory r' ! j = Memory r ! j) \<and>
   (\<forall>j. i \<le> j \<and> j < 1000 \<longrightarrow>
      j < length (Memory r') \<and>
      decoded (answers r ! (2 * (j - i))) (answers r ! (2 * (j - i) + 1)) (Memory r' ! j))"
proof (induction i r rule: ReadMemoryLoop.induct)
  case (1 i r)
  show ?case
  proof (cases "i \<le> 999")
    case False
    with "1.prems" show ?thesis
      by (subst (asm) ReadMemoryLoop.simps) auto
  next
    case True
    obtain m err r1 where rc: "ReadChannel r (int i) = ((m, err), r1)"
      by (metis prod.collapse)
    from "1.prems" True rc have len: "i < length (Memory r1)"
      by (subst (asm) ReadMemoryLoop.simps) (auto split: if_splits)
    let ?r2 = "r1\<lparr>Memory := (Memory r1)[i := m]\<rparr>"
    from "1.prems" True rc len have err: "err = None"
      by (subst (asm) ReadMemoryLoop.simps) (auto simp: Let_def split: option.splits)
    from "1.prems" True rc len err have rest: "ReadMemoryLoop (i + 1) ?r2 = (None, r')"
      by (subst (asm) ReadMemoryLoop.simps) (auto simp: Let_def)
    have nlen: "\<not> length (Memory r1) \<le> i"
      using len by simp
    note IH = "1.IH" [OF True rc [symmetric] refl nlen refl err rest]
    from ReadChannel_answers [OF rc [unfolded err]] obtain l1 l2 where
      ans: "answers r = l1 # l2 # answers r1" and dec: "decoded l1 l2 m"
      and mem: "Memory r1 = Memory r"
      by auto
    have ans2: "answers ?r2 = answers r1"
      by (simp add: answers_def)
    have at_i: "Memory r' ! i = m"
      using IH len by simp
    show ?thesis
    proof (intro conjI allI impI)
      show "length (Memory r') = length (Memory r)"
        using IH mem by simp
    next
      fix j assume "j < i"
      then show "Memory r' ! j = Memory r ! j"
        using IH mem by simp
    next
      fix j assume j: "i \<le> j \<and> j < 1000"
      then show "j < length (Memory r')"
        using IH len by (cases "j = i") auto
    next
      fix j assume j: "i \<le> j \<and> j < 1000"
      show "decoded (answers r ! (2 * (j - i))) (answers r ! (2 * (j - i) + 1)) (Memory r' ! j)"
      proof (cases "j = i")
        case True
        then show ?thesis
          using at_i dec ans by simp
      next
        case False
        with j have j': "i + 1 \<le> j \<and> j < 1000" by simp
        then have "decoded (answers ?r2 ! (2 * (j - (i + 1)))) (answers ?r2 ! (2 * (j - (i + 1)) + 1))
                     (Memory r' ! j)"
          using IH by blast
        moreover have "2 * (j - i) = Suc (Suc (2 * (j - (i + 1))))"
          using j' by arith
        ultimately show ?thesis
          using ans ans2 by simp
      qed
    qed
  qed
qed


lemma quiet_transaction:
  assumes "quiet r (Suc k)"
  shows "\<exists>r'. WriteReadString r c = ((emptyAnswer, None), r') \<and> quiet r' k"
  using assms
  by (simp add: quiet_def WriteReadString_def WriteString_def ReadString_def Let_def
      emptyAnswer_def HasPrefix_def)

lemma emptyAnswer_lines:
  "ReadChannelLine m emptyAnswer = (m, None)" "ReadNameLine m emptyAnswer = (m, None)"
  by (simp_all add: emptyAnswer_def ReadChannelLine_def ReadNameLine_def)

lemma replicate_update_same: "(replicate n x)[i := x] = replicate n x"
  by (induction n arbitrary: i) (simp_all split: nat.split)

lemma quiet_channel:
  assumes "quiet r (Suc (Suc k))"
  shows "\<exists>r'. ReadChannel r ch = ((zeroEntry, None), r') \<and> quiet r' k"
proof -
  from quiet_transaction [OF assms] obtain r1 where
    a: "WriteReadString r (Sprintf MECommandFormat [GoInt ch]) = ((emptyAnswer, None), r1)"
    and q1: "quiet r1 (Suc k)"
    by blast
  from quiet_transaction [OF q1] obtain r2 where
    b: "WriteReadString r1 (Sprintf MNCommandFormat [GoInt ch]) = ((emptyAnswer, None), r2)"
    and q2: "quiet r2 k"
    by blast
  have "ReadChannel r ch = ((zeroEntry, None), r2)"
    by (simp add: ReadChannel_def a b emptyAnswer_lines)
  with q2 show ?thesis by blast
qed

lemma quiet_loop:
  "i \<le> 1000 \<Longrightarrow> quiet r (2 * (1000 - i)) \<Longrightarrow> fst (ReadMemoryLoop i r) = None"
proof (induction i r rule: ReadMemoryLoop.induct)
  case (1 i r)
  show ?case
  proof (cases "i \<le> 999")
    case False
    then show ?thesis
      by (subst ReadMemoryLoop.simps) simp
  next
    case True
    then have "2 * (1000 - i) = Suc (Suc (2 * (1000 - (i + 1))))"
      by arith
    with "1.prems"(2) have "quiet r (Suc (Suc (2 * (1000 - (i + 1)))))"
      by simp
    from quiet_channel [OF this] obtain r1 where
      rc: "ReadChannel r (int i) = ((zeroEntry, None), r1)" and q1: "quiet r1 (2 * (1000 - (i + 1)))"
      by blast
    let ?r2 = "r1\<lparr>Memory := (Memory r1)[i := zeroEntry]\<rparr>"
    have len: "\<not> length (Memory r1) \<le> i"
      using q1 True by (simp add: quiet_def)
    have q2: "quiet ?r2 (2 * (1000 - (i + 1)))"
      using q1 by (simp add: quiet_def replicate_update_same)
    have "fst (ReadMemoryLoop (i + 1) ?r2) = None"
      using "1.IH" [OF True rc [symmetric] refl len refl refl _ q2] True by simp
    then show ?thesis
      using True rc len by (subst ReadMemoryLoop.simps) (simp add: Let_def)
  qed
qed

lemma silentRadio_reads: "fst (ReadMemory silentRadio) = None"
proof -
  have "quiet silentRadio (2 * (1000 - 0))"
    by (simp add: quiet_def silentRadio_def NewRadio_def device_def)
  then show ?thesis
    unfolding ReadMemory_def by (intro quiet_loop) simp_all
qed

lemma linesOf_emptyAnswers:
  "linesOf (concat (replicate k emptyAnswer)) [] = replicate k emptyAnswer"
  by (induction k) (simp_all add: emptyAnswer_def)

lemma silentRadio_answers: "i < 2000 \<Longrightarrow> answers silentRadio ! i = emptyAnswer"
  by (simp add: answers_def silentRadio_def NewRadio_def device_def linesOf_emptyAnswers)

lemma ReadMemory_success:
  assumes "ReadMemory r = (None, r')" and "i < 1000"
  shows "decoded (answers r ! (2 * i)) (answers r ! (2 * i + 1)) (Memory r' ! i)"
  using ReadMemoryLoop_success [OF assms(1) [unfolded ReadMemory_def]] assms(2) by simp

text \<open>
  Claim C9, amended. After a successful \<^verbatim>\<open>ReadMemory\<close>, for every position \<open>i\<close> below
  1000 the entry at position \<open>i\<close> is the entry decoded from the two lines the device sent
  for channel \<open>i\<close>: its number is the number that \<^verbatim>\<open>ReadChannelLine\<close> reads from the
  numeric line, and 0 when the device reported the channel empty. It is not set from \<open>i\<close>.
\<close>

theorem ReadMemory_numbers:
  assumes "ReadMemory r = (None, r')" and "i < 1000"
  shows "decoded (answers r ! (2 * i)) (answers r ! (2 * i + 1)) (Memory r' ! i) \<and>
         Number (Memory r' ! i) = Number (fst (ReadChannelLine zeroEntry (answers r ! (2 * i)))) \<and>
         (answers r ! (2 * i) = emptyAnswer \<longrightarrow> Number (Memory r' ! i) = 0)"
proof -
  have d: "decoded (answers r ! (2 * i)) (answers r ! (2 * i + 1)) (Memory r' ! i)"
    using assms by (rule ReadMemory_success)
  have n: "Number (fst (ReadNameLine m l)) = Number m" for m l
    by (simp add: ReadNameLine_def Let_def)
  from d have "Number (Memory r' ! i) = Number (fst (ReadChannelLine zeroEntry (answers r ! (2 * i))))"
    using n [of "fst (ReadChannelLine zeroEntry (answers r ! (2 * i)))" "answers r ! (2 * i + 1)"]
    by (simp add: decoded_def)
  with d show ?thesis
    by (simp add: emptyAnswer_lines) (simp add: zeroEntry_def)
qed

text \<open>
  Claim C9, as stated, fails: when the device reports channel 5 empty, \<^verbatim>\<open>ReadMemory\<close>
  succeeds and the entry at position 5 has number 0.
\<close>

theorem ReadMemory_numbers_counterexample:
  "fst (ReadMemory silentRadio) = None \<and>
   Number (Memory (snd (ReadMemory silentRadio)) ! 5) = 0 \<and>
   Number (Memory (snd (ReadMemory silentRadio)) ! 5) \<noteq> 5"
proof -
  have s: "ReadMemory silentRadio = (None, snd (ReadMemory silentRadio))"
    using silentRadio_reads by (metis prod.collapse)
  have "decoded (answers silentRadio ! (2 * 5)) (answers silentRadio ! (2 * 5 + 1))
          (Memory (snd (ReadMemory silentRadio)) ! 5)"
    by (rule ReadMemory_success [OF s]) simp
  then have "Memory (snd (ReadMemory silentRadio)) ! 5 = zeroEntry"
    by (simp add: silentRadio_answers decoded_def emptyAnswer_lines)
  then show ?thesis
    using silentRadio_reads by (simp add: zeroEntry_def)
qed

theorem ReadMemory_numbers_witness:
  "fst (ReadMemory silentRadio) = None \<and>
   answers silentRadio ! (2 * 7) = emptyAnswer \<and>
   Number (Memory (snd (ReadMemory silentRadio)) ! 7) = 0"
proof -
  have s: "ReadMemory silentRadio = (None, snd (ReadMemory silentRadio))"
    using silentRadio_reads by (metis prod.collapse)
  show ?thesis
    using ReadMemory_numbers [OF s, of 7] silentRadio_reads
    by (simp add: silentRadio_answers emptyAnswer_lines) (simp add: zeroEntry_def)
qed


section \<open>The scanner, one piece of the format at a time\<close>

lemma shiftAdvance_simps [simp]:
  "shiftAdvance i (Inl e) = Inl e"
  "shiftAdvance i (Inr (w, s)) = Inr (if w < 0 then - 1 else w + i, s)"
  by (simp_all add: shiftAdvance_def)

lemma shiftAdvance_add:
  "0 \<le> j \<Longrightarrow> shiftAdvance i (shiftAdvance j res) = shiftAdvance (i + j) res"
  by (auto simp: shiftAdvance_def split: sum.splits)

lemma advanceLoop_shift_aux:
  "\<forall>i s. 0 \<le> i \<longrightarrow> advanceLoop fmt i s = shiftAdvance i (advanceLoop fmt 0 s)"
proof (induction fmt rule: length_induct)
  case (1 fmt)
  show ?case
  proof (cases fmt)
    case Nil
    then show ?thesis by simp
  next
    case (Cons c f)
    have IH: "\<And>g i s. length g < length fmt \<Longrightarrow> 0 \<le> i \<Longrightarrow>
                advanceLoop g i s = shiftAdvance i (advanceLoop g 0 s)"
      using 1 by blast
    have dw: "length (dropWhile fmtSpace (c # f)) < length fmt" if "fmtSpace c"
      using that length_dropWhile_le [of fmtSpace f] Cons by simp
    have tl: "length (tl f) < length fmt"
      using Cons by (cases f) auto
    have f: "length f < length fmt"
      using Cons by simp
    show ?thesis
    proof (intro allI impI)
      fix i :: int and s
      assume i: "0 \<le> i"
      have a: "advanceLoop g (i + j) s' = shiftAdvance i (advanceLoop g j s')"
        if "length g < length fmt" "0 \<le> j" for g j s'
        using IH [OF that(1), of "i + j" s'] IH [OF that(1), of j s'] i that(2)
        by (simp add: shiftAdvance_add)
      show "advanceLoop fmt i s = shiftAdvance i (advanceLoop fmt 0 s)"
        unfolding Cons advanceLoop.simps(2)
        using a [OF dw] a [OF tl, of 2] a [OF f, of 1] Cons
        by (auto simp: Let_def split: sum.splits prod.splits option.splits)
    qed
  qed
qed

lemma advanceLoop_shift:
  "0 \<le> i \<Longrightarrow> advanceLoop fmt i s = shiftAdvance i (advanceLoop fmt 0 s)"
  using advanceLoop_shift_aux by blast

lemma advance_zero:
  assumes "advance fmt s = Inr (0, s')"
  shows "s' = s \<and> (fmt = [] \<or> hd fmt = CHR ''%'')"
proof (cases fmt)
  case Nil
  with assms show ?thesis by (simp add: advance_def)
next
  case (Cons c f)
  have sh: "advanceLoop g k s2 \<noteq> Inr (0, s')" if "0 < k" for g k s2
    using advanceLoop_shift [of k g s2] that
    by (auto simp: shiftAdvance_def split: sum.splits prod.splits if_splits)
  from assms show ?thesis
    unfolding advance_def Cons advanceLoop.simps(2)
    using sh
    by (auto simp: Let_def split: if_splits sum.splits prod.splits option.splits)
qed

lemma advance_negative:
  assumes "advance fmt s = Inr (w, s')" and "w < 0"
  shows "fmt \<noteq> [] \<and> (hd fmt = CHR ''%'' \<longrightarrow> take 2 fmt = ''%%'')"
proof (cases fmt)
  case Nil
  with assms show ?thesis by (simp add: advance_def)
next
  case (Cons c f)
  from assms show ?thesis
    unfolding advance_def Cons advanceLoop.simps(2)
    by (cases f) (auto simp: Let_def fmtSpace_def isSpace_def split: if_splits)
qed

lemma doScanf_skip:
  assumes adv: "advance (pre @ fmt) s = shiftAdvance (int (length pre)) (advance fmt s2)"
    and pre: "pre \<noteq> []" "hd pre \<noteq> CHR ''%''"
    and pp: "take 2 fmt \<noteq> ''%%''"
  shows "doScanf (pre @ fmt) a n h s = doScanf fmt a n h s2"
proof (cases "advance fmt s2")
  case (Inl e)
  then have "fmt \<noteq> []"
    by (auto simp: advance_def)
  with Inl adv pre show ?thesis
    by (subst doScanf.simps, subst (2) doScanf.simps) simp
next
  case (Inr p)
  obtain w s3 where p: "p = (w, s3)" by (cases p)
  show ?thesis
  proof (cases "w < 0")
    case True
    with advance_negative [OF Inr [unfolded p]] pp have "fmt \<noteq> []" "hd fmt \<noteq> CHR ''%''"
      by auto
    with True Inr p adv pre show ?thesis
      by (subst doScanf.simps, subst (2) doScanf.simps) simp
  next
    case False
    then have pos: "0 < w + int (length pre)"
      using pre(1) by (cases pre) auto
    have "nat (w + int (length pre)) = length pre + nat w"
      using False by simp
    then have dr: "drop (nat (w + int (length pre))) (pre @ fmt) = drop (nat w) fmt"
      by simp
    have l: "doScanf (pre @ fmt) a n h s = doScanf (drop (nat w) fmt) a n h s3"
      using Inr p adv pre False pos dr
      by (subst doScanf.simps) simp
    show ?thesis
    proof (cases "w = 0")
      case True
      with advance_zero [of fmt s2 s3] Inr p have "s3 = s2" by simp
      with l True show ?thesis by simp
    next
      case w: False
      with False have "0 < w" by simp
      moreover have "fmt \<noteq> []"
        using Inr p w by (auto simp: advance_def)
      ultimately have "doScanf fmt a n h s2 = doScanf (drop (nat w) fmt) a n h s3"
        using Inr p by (subst doScanf.simps) simp
      with l show ?thesis by simp
    qed
  qed
qed

lemma doScanf_literal:
  assumes "(of_char c :: nat) < 0x80" and "\<not> fmtSpace c" and "c \<noteq> CHR ''%''"
    and "take 2 fmt \<noteq> ''%%''"
  shows "doScanf (c # fmt) a n h s =
           (case getRune s of
              (None, _) \<Rightarrow> ((n, Some ErrUnexpectedEOF), h)
            | (Some r, s') \<Rightarrow>
                if r \<noteq> of_char c then ((n, Some ErrInputDoesNotMatchFormat), h)
                else doScanf fmt a n h s')"
proof (cases "getRune s")
  case (Pair ro s')
  show ?thesis
  proof (cases ro)
    case None
    with Pair assms show ?thesis
      by (subst doScanf.simps) (simp add: advance_def)
  next
    case (Some r)
    show ?thesis
    proof (cases "r = of_char c")
      case False
      with Pair Some assms show ?thesis
        by (subst doScanf.simps) (auto simp: advance_def)
    next
      case True
      have "advance ([c] @ fmt) s = shiftAdvance (int (length [c])) (advance fmt s')"
        using Pair Some True assms advanceLoop_shift [of 1 fmt s']
        by (simp add: advance_def)
      from doScanf_skip [OF this _ _ assms(4)] assms(3) Pair Some True show ?thesis
        by simp
    qed
  qed
qed

lemma doScanf_blank:
  assumes "fmtSpace c" and "c \<noteq> NL" and "fmt = [] \<or> \<not> fmtSpace (hd fmt)"
    and "take 2 fmt \<noteq> ''%%''"
  shows "doScanf (c # fmt) a n h s =
           (case matchTrailingSpace 0 s of
              Inl e \<Rightarrow> ((n, Some e), h)
            | Inr s2 \<Rightarrow> doScanf fmt a n h s2)"
proof -
  have c: "(of_char c :: nat) < 0x80" "c \<noteq> CHR ''%''"
    using assms(1) by (auto simp: fmtSpace_def isSpace_def)
  have run: "takeWhile fmtSpace (c # fmt) = [c]" "dropWhile fmtSpace (c # fmt) = fmt"
    using assms(1,3) by (cases fmt; simp)+
  have adv: "advance (c # fmt) s =
               (case matchTrailingSpace 0 s of
                  Inl e \<Rightarrow> Inl e
                | Inr s2 \<Rightarrow> shiftAdvance 1 (advance fmt s2))"
    unfolding advance_def advanceLoop.simps(2) run
    using c assms(1,2) advanceLoop_shift [of 1 fmt]
    by (simp add: Let_def split: sum.splits)
  show ?thesis
  proof (cases "matchTrailingSpace 0 s")
    case (Inl e)
    with adv show ?thesis
      by (subst doScanf.simps) simp
  next
    case (Inr s2)
    with adv have "advance ([c] @ fmt) s = shiftAdvance (int (length [c])) (advance fmt s2)"
      by simp
    from doScanf_skip [OF this _ _ assms(4)] c(2) Inr show ?thesis
      by simp
  qed
qed

lemma doScanf_verb:
  assumes "fmt \<noteq> []" and "hd fmt \<noteq> CHR ''%''"
  shows "doScanf (CHR ''%'' # fmt) a n h s =
           (case doVerb fmt a n h s of
              Inl e \<Rightarrow> ((n, Some e), h)
            | Inr (fmt3, n', h', s') \<Rightarrow> doScanf fmt3 a n' h' s')"
proof -
  have "advance (CHR ''%'' # fmt) s = Inr (0, s)"
    using assms by (simp add: advance_def fmtSpace_def isSpace_def)
  then show ?thesis
    by (subst doScanf.simps) simp
qed


section \<open>Scanning a field of digits\<close>

lemma isDigit_ascii:
  assumes "isDigit c"
  shows "(of_char c :: nat) < 0x80" and "\<not> isSpace (of_char c)"
    and "of_char c \<noteq> (13::nat)" and "of_char c \<noteq> (10::nat)"
  using assms by (auto simp: isDigit_def isSpace_def)

lemma isDigit_index:
  assumes "isDigit c"
  shows "indexRune decimalDigits (of_char c)"
proof -
  from assms have "48 \<le> (of_char c :: nat) \<and> (of_char c :: nat) \<le> 57"
    by (simp add: isDigit_def)
  then have "(of_char c :: nat) \<in> {48, 49, 50, 51, 52, 53, 54, 55, 56, 57}"
    by (simp only: insert_iff empty_iff) arith
  then show ?thesis
    by (auto simp: indexRune_def decimalDigits_def)
qed

lemma getRune_ascii:
  assumes "count s < argLimit s" and "rs s = c # cs" and "(of_char c :: nat) < 0x80"
  shows "getRune s = (Some (of_char c), s\<lparr>rs := cs, count := count s + 1\<rparr>)"
  using assms by (simp add: getRune_def)

lemma getRune_limit: "argLimit s \<le> count s \<Longrightarrow> getRune s = (None, s)"
  by (simp add: getRune_def)

lemma SkipSpace_digit:
  assumes "rs s = c # cs" and "isDigit c"
  shows "SkipSpace s = Inr s"
proof (cases "count s < argLimit s")
  case True
  from getRune_ascii [OF True assms(1) isDigit_ascii(1) [OF assms(2)]] isDigit_ascii [OF assms(2)]
  show ?thesis
    by (subst SkipSpace.simps) simp
next
  case False
  then show ?thesis
    by (subst SkipSpace.simps) (simp add: getRune_limit)
qed

lemma acceptAll_digits:
  "list_all isDigit ds \<Longrightarrow> rs s = ds @ rest \<Longrightarrow> count s + length ds = argLimit s \<Longrightarrow>
   acceptAll decimalDigits s = s\<lparr>rs := rest, count := count s + length ds, buf := buf s @ ds\<rparr>"
proof (induction ds arbitrary: s)
  case Nil
  then have "getRune s = (None, s)"
    by (simp add: getRune_limit)
  with Nil show ?case
    by (subst acceptAll.simps) (simp add: accept_def consume_def)
next
  case (Cons d ds)
  let ?s1 = "s\<lparr>rs := ds @ rest, count := count s + 1\<rparr>"
  let ?s2 = "?s1\<lparr>buf := buf ?s1 @ [char_of (of_char d :: nat)]\<rparr>"
  from Cons.prems have d: "isDigit d" and ds: "list_all isDigit ds"
    by simp_all
  have "getRune s = (Some (of_char d), ?s1)"
    using Cons.prems by (intro getRune_ascii isDigit_ascii(1) [OF d]) simp_all
  then have acc: "accept decimalDigits s = (True, ?s2)"
    using isDigit_index [OF d] by (simp add: accept_def consume_def)
  have "acceptAll decimalDigits ?s2 =
          ?s2\<lparr>rs := rest, count := count ?s2 + length ds, buf := buf ?s2 @ ds\<rparr>"
    using Cons.prems by (intro Cons.IH ds) simp_all
  with acc show ?case
    by (subst acceptAll.simps) simp
qed

lemma ParseUint_digits:
  "list_all isDigit ds \<Longrightarrow> ds \<noteq> [] \<Longrightarrow> decimalValue ds 0 < 2 ^ 64 \<Longrightarrow>
   ParseUint ds = Inr (decimalValue ds 0)"
  by (simp add: ParseUint_def)

lemma scanUint_digits:
  assumes "rs s = ds @ rest" and "ds \<noteq> []" and "list_all isDigit ds"
    and "count s + length ds = argLimit s" and "buf s = []"
    and "decimalValue ds 0 < 2 ^ bits" and "bits \<le> 64"
  shows "scanUint CHR ''d'' bits s =
           Inr (decimalValue ds 0, s\<lparr>rs := rest, count := count s + length ds, buf := ds\<rparr>)"
proof -
  obtain d ds' where dd: "ds = d # ds'"
    using assms(2) by (cases ds) auto
  with assms have d: "isDigit d" and ds': "list_all isDigit ds'"
    by simp_all
  have r: "rs s = d # ds' @ rest"
    using assms(1) dd by simp
  have lt: "count s < argLimit s"
    using assms(4) dd by simp
  have sk: "SkipSpace s = Inr s"
    using r d by (rule SkipSpace_digit)
  let ?s1 = "s\<lparr>rs := ds' @ rest, count := count s + 1\<rparr>"
  let ?s2 = "?s1\<lparr>buf := buf ?s1 @ [char_of (of_char d :: nat)]\<rparr>"
  have g: "getRune s = (Some (of_char d), ?s1)"
    using lt r isDigit_ascii(1) [OF d] by (rule getRune_ascii)
  then have ne: "notEOF s = Inr s"
    by (simp add: notEOF_def)
  have acc: "accept decimalDigits s = (True, ?s2)"
    using g isDigit_index [OF d] by (simp add: accept_def consume_def)
  have all: "acceptAll decimalDigits ?s2 =
          ?s2\<lparr>rs := rest, count := count ?s2 + length ds', buf := buf ?s2 @ ds'\<rparr>"
    using assms(4) dd by (intro acceptAll_digits ds') simp_all
  have num: "scanNumber decimalDigits False s =
               Inr (ds, s\<lparr>rs := rest, count := count s + length ds, buf := ds\<rparr>)"
    using ne acc all dd assms(5) by (simp add: scanNumber_def Let_def)
  have big: "(2::nat) ^ bits \<le> 2 ^ 64"
    using assms(7) by (intro power_increasing) simp_all
  with assms(6) have lt64: "decimalValue ds 0 < 2 ^ 64"
    by (rule less_le_trans)
  note pu = ParseUint_digits [OF assms(3,2) lt64]
  show ?thesis
    using sk ne num pu assms(6) by (simp add: scanUint_def)
qed

lemma doVerb_field:
  assumes pn: "parsenum 1 fmt = (w, True, CHR ''d'' # fmt3)"
    and a: "n < length a" "a ! n = UintPtr bits store"
    and inp: "rs s = ds @ rest" "ds \<noteq> []" "list_all isDigit ds" "length ds = w"
    and lim: "count s + w \<le> hugeWid"
    and v: "decimalValue ds 0 < 2 ^ bits" "bits \<le> 64"
  shows "doVerb fmt a n h s =
           Inr (fmt3, Suc n, store (decimalValue ds 0) h,
                s\<lparr>rs := rest, count := count s + w, argLimit := hugeWid, buf := ds\<rparr>)"
proof -
  obtain d ds' where dd: "ds = d # ds'"
    using inp(2) by (cases ds) auto
  have sk: "SkipSpace s = Inr s"
    using inp(1,3) dd by (intro SkipSpace_digit [of s d "ds' @ rest"]) simp_all
  let ?s = "s\<lparr>argLimit := min hugeWid (count s + w), buf := []\<rparr>"
  have "scanUint CHR ''d'' bits ?s =
          Inr (decimalValue ds 0, ?s\<lparr>rs := rest, count := count ?s + length ds, buf := ds\<rparr>)"
    using inp lim v by (intro scanUint_digits) simp_all
  then have "scanOne CHR ''d'' (a ! n) h (s\<lparr>argLimit := min hugeWid (count s + w)\<rparr>) =
          Inr (store (decimalValue ds 0) h,
               s\<lparr>rs := rest, count := count s + w, argLimit := min hugeWid (count s + w), buf := ds\<rparr>)"
    using a(2) inp(4) by simp
  then show ?thesis
    using pn a(1) sk by (simp add: doVerb_def)
qed

lemma digitChar_props:
  assumes "d < 10"
  shows "isDigit (digitChar d)" and "digitVal (digitChar d) = d"
proof -
  from assms have "d \<in> {0, 1, 2, 3, 4, 5, 6, 7, 8, 9}" by auto
  then show "isDigit (digitChar d)" and "digitVal (digitChar d) = d"
    by (auto simp: digitChar_def isDigit_def digitVal_def)
qed

lemma decimalValue_append:
  "decimalValue (xs @ ys) acc = decimalValue ys (decimalValue xs acc)"
  by (induction xs arbitrary: acc) auto

lemma decimal_isDigit: "list_all isDigit (decimal n)"
proof (induction n rule: decimal.induct)
  case (1 u)
  show ?case
  proof (cases "u < 10")
    case True
    then show ?thesis
      by (simp add: decimal.simps [of u] digitChar_props)
  next
    case False
    then have "list_all isDigit (decimal (u div 10))"
      by (rule 1)
    then show ?thesis
      using False by (simp add: decimal.simps [of u] digitChar_props)
  qed
qed

lemma decimal_value: "decimalValue (decimal n) acc = acc * 10 ^ length (decimal n) + n"
proof (induction n arbitrary: acc rule: decimal.induct)
  case (1 u)
  show ?case
  proof (cases "u < 10")
    case True
    then show ?thesis
      by (simp add: decimal.simps [of u] digitChar_props)
  next
    case False
    have "decimalValue (decimal (u div 10)) acc =
            acc * 10 ^ length (decimal (u div 10)) + u div 10"
      using False by (rule 1)
    then show ?thesis
      using False
      by (simp add: decimal.simps [of u] digitChar_props decimalValue_append algebra_simps)
  qed
qed

lemma decimal_length: "n < 10 ^ w \<Longrightarrow> 0 < w \<Longrightarrow> length (decimal n) \<le> w"
proof (induction n arbitrary: w rule: decimal.induct)
  case (1 u)
  show ?case
  proof (cases "u < 10")
    case True
    with "1.prems" show ?thesis
      by (simp add: decimal.simps [of u])
  next
    case False
    obtain w' where w: "w = Suc w'"
      using "1.prems"(2) by (cases w) auto
    have w': "0 < w'"
      using False "1.prems"(1) w by (cases w') auto
    have "u div 10 < 10 ^ w'"
      using "1.prems"(1) w by (simp add: less_mult_imp_div_less mult.commute)
    from "1.IH" [OF False this w'] show ?thesis
      using False w by (simp add: decimal.simps [of u])
  qed
qed

lemma decimalValue_zeros: "decimalValue (replicate k CHR ''0'' @ ds) 0 = decimalValue ds 0"
  by (induction k) (simp_all add: digitVal_def)

lemma decimal_nonempty: "decimal n \<noteq> []"
  by (simp add: decimal.simps [of n])

lemma field_digits:
  assumes "n < 10 ^ w" and "0 < w" and "zero \<or> w = 1"
  shows "length (fmtInteger zero True w False n) = w"
    and "list_all isDigit (fmtInteger zero True w False n)"
    and "decimalValue (fmtInteger zero True w False n) 0 = n"
    and "fmtInteger zero True w False n \<noteq> []"
proof -
  note len = decimal_length [OF assms(1,2)]
  have one: "length (decimal n) = 1" if "w = 1"
    using len that decimal_nonempty [of n] by (cases "decimal n") auto
  have z: "isDigit CHR ''0''"
    by (simp add: isDigit_def)
  show "length (fmtInteger zero True w False n) = w"
    using len one assms(2,3) by (auto simp: fmtInteger_def pad_def Let_def)
  show "list_all isDigit (fmtInteger zero True w False n)"
    using len one assms(2,3) decimal_isDigit [of n] z
    by (auto simp: fmtInteger_def pad_def Let_def list_all_iff)
  show "decimalValue (fmtInteger zero True w False n) 0 = n"
    using len one assms(2,3) decimal_value [of n 0]
    by (auto simp: fmtInteger_def pad_def Let_def decimalValue_zeros)
  show "fmtInteger zero True w False n \<noteq> []"
    using decimal_nonempty [of n] by (auto simp: fmtInteger_def pad_def Let_def)
qed

lemma channel_line_format:
  "WriteChannelLine e =
     ''ME '' @ fmtInteger True True 3 False (unat (Number e)) @
     '','' @ fmtInteger True True 10 False (unat (RXFrequency e)) @
     '','' @ fmtInteger False True 1 False (unat (RXStepSize e)) @
     '','' @ fmtInteger False True 1 False (unat (ShiftDirection e)) @
     '','' @ fmtInteger False True 1 False (unat (ReverseEnabled e)) @
     '','' @ fmtInteger False True 1 False (unat (ToneEnabled e)) @
     '','' @ fmtInteger False True 1 False (unat (CTCSSEnabled e)) @
     '','' @ fmtInteger False True 1 False (unat (DCSEnabled e)) @
     '','' @ fmtInteger True True 2 False (unat (ToneFrequency e)) @
     '','' @ fmtInteger True True 2 False (unat (CTCSSFrequency e)) @
     '','' @ fmtInteger True True 3 False (unat (DCSFrequency e)) @
     '','' @ fmtInteger True True 8 False (unat (OffsetFrequency e)) @
     '','' @ fmtInteger False True 1 False (unat (Mode e)) @
     '','' @ fmtInteger True True 10 False (unat (TXFrequency e)) @
     '','' @ fmtInteger False True 1 False (unat (TXStepSize e)) @
     '','' @ fmtInteger False True 1 False (unat (LockOut e))"
  by (simp add: WriteChannelLine_def StructFieldValues_def MEFormat_def Sprintf_def
      parsenum_def isDigit_def digitVal_def tooLarge_def)
    (simp add: numeral_2_eq_2)


section \<open>The round trip of the numeric line\<close>

lemma doVerb_field_rule:
  assumes "parsenum 1 fmt = (length ds, True, CHR ''d'' # verbRest fmt)"
    and "n < length a" and "isUintPtr (a ! n)"
    and "ds \<noteq> []" and "list_all isDigit ds"
    and "c + length ds \<le> hugeWid"
    and "decimalValue ds 0 < 2 ^ opBits (a ! n)" and "opBits (a ! n) \<le> 64"
  shows "doVerb fmt a n h \<lparr>rs = ds @ rest, count = c, argLimit = al, buf = b\<rparr> =
           Inr (verbRest fmt, Suc n, opStore (a ! n) (decimalValue ds 0) h,
                \<lparr>rs = rest, count = c + length ds, argLimit = hugeWid, buf = ds\<rparr>)"
proof -
  obtain bits store where op: "a ! n = UintPtr bits store"
    using assms(3) by (cases "a ! n") auto
  let ?s = "\<lparr>rs = ds @ rest, count = c, argLimit = al, buf = b\<rparr>"
  have "doVerb fmt a n h ?s =
          Inr (verbRest fmt, Suc n, store (decimalValue ds 0) h,
               ?s\<lparr>rs := rest, count := count ?s + length ds, argLimit := hugeWid, buf := ds\<rparr>)"
    using assms op by (intro doVerb_field) simp_all
  then show ?thesis
    using op by simp
qed

lemma skipBlanks_digits:
  assumes "ds \<noteq> []" and "list_all isDigit ds"
  shows "skipBlanks \<lparr>rs = ds @ rest, count = c, argLimit = al, buf = b\<rparr> =
           \<lparr>rs = ds @ rest, count = c, argLimit = al, buf = b\<rparr>"
proof -
  obtain d ds' where dd: "ds = d # ds'"
    using assms(1) by (cases ds) auto
  with assms(2) have d: "isDigit d" by simp
  show ?thesis
  proof (cases "c < al")
    case True
    then have "getRune \<lparr>rs = ds @ rest, count = c, argLimit = al, buf = b\<rparr> =
            (Some (of_char d), \<lparr>rs = ds' @ rest, count = c + 1, argLimit = al, buf = b\<rparr>)"
      using dd isDigit_ascii(1) [OF d] by (simp add: getRune_def)
    then show ?thesis
      using isDigit_ascii(2) [OF d] by (subst skipBlanks.simps) simp
  next
    case False
    then show ?thesis
      by (subst skipBlanks.simps) (simp add: getRune_def)
  qed
qed

lemma skipBlanks_blank:
  assumes "c < al"
  shows "skipBlanks \<lparr>rs = CHR '' '' # r, count = c, argLimit = al, buf = b\<rparr> =
           skipBlanks \<lparr>rs = r, count = c + 1, argLimit = al, buf = b\<rparr>"
  using assms by (subst skipBlanks.simps) (simp add: getRune_def isSpace_def)

lemma doScanf_Nil: "doScanf [] a n h s = doScanfEnd a n h"
  by (subst doScanf.simps) simp

text \<open>
  The round trip of the numeric line, whatever follows the line (the carriage return
  that \<^verbatim>\<open>WriteChannel\<close> appends, for one): the width of the last verb ends the scan.
\<close>

lemma numeric_roundtrip_tail:
  assumes "inRange e"
  shows "ReadChannelLine m (WriteChannelLine e @ tail) = (e\<lparr>Name := Name m\<rparr>, None)"
proof -
  have rx: "unat (RXFrequency e) < 4294967296" "unat (TXFrequency e) < 4294967296"
    using unsigned_less [of "RXFrequency e", where ?'a = nat] unsigned_less [of "TXFrequency e", where ?'a = nat] by simp_all
  have ne: "WriteChannelLine e @ tail \<noteq> ''N'' @ [CR]"
    by (simp add: channel_line_format)
  have "Sscanf (WriteChannelLine e @ tail) MEFormat (take 16 StructFieldPointers) m =
          ((16, None), e\<lparr>Name := Name m\<rparr>)"
    using assms rx
    apply (cases e, cases m)
    apply (simp add: inRange_def Sscanf_def newScanState_def channel_line_format MEFormat_def
        StructFieldPointers_def doScanf_literal doScanf_blank doScanf_verb doVerb_field_rule
        field_digits getRune_def hugeWid_def fmtSpace_def isSpace_def matchTrailingSpace_def
        skipBlanks_digits skipBlanks_blank doScanf_Nil doScanfEnd_def parsenum_def isDigit_def
        digitVal_def tooLarge_def verbRest_def)
    done
  with ne show ?thesis
    by (simp add: ReadChannelLine_def)
qed

text \<open>
  Claim C1. For every entry in range, \<^verbatim>\<open>ReadChannelLine\<close> on the line of
  \<^verbatim>\<open>WriteChannelLine\<close>, alone or followed by a carriage return, succeeds on any entry
  \<open>m\<close> and leaves in it the 16 numeric fields of the encoded entry; the name of \<open>m\<close>
  stays. The \<^verbatim>\<open>RXFrequency\<close> need not be other than 0 for this.
\<close>

theorem numeric_roundtrip:
  assumes "inRange e"
  shows "ReadChannelLine m (WriteChannelLine e) = (e\<lparr>Name := Name m\<rparr>, None) \<and>
         ReadChannelLine m (WriteChannelLine e @ [CR]) = (e\<lparr>Name := Name m\<rparr>, None)"
  using numeric_roundtrip_tail [OF assms, of m "[]"] numeric_roundtrip_tail [OF assms, of m "[CR]"]
  by simp

theorem numeric_roundtrip_witness:
  "inRange channel5 \<and> RXFrequency channel5 \<noteq> 0 \<and>
   ReadChannelLine zeroEntry (WriteChannelLine channel5) = (channel5\<lparr>Name := []\<rparr>, None)"
proof -
  have r: "inRange channel5"
    by (simp add: inRange_def channel5_def zeroEntry_def)
  from numeric_roundtrip [OF r, of zeroEntry] r show ?thesis
    by (simp add: zeroEntry_def) (simp add: channel5_def)
qed


section \<open>When the numeric line fails to decode\<close>

lemma errorsEarly_Nil: "n = length a \<Longrightarrow> errorsEarly a n []"
  by (simp add: errorsEarly_def doScanf_Nil doScanfEnd_def)

lemma errorsEarly_literal:
  assumes "errorsEarly a n fmt" and "n < length a"
    and "(of_char c :: nat) < 0x80" and "\<not> fmtSpace c" and "c \<noteq> CHR ''%''"
    and "take 2 fmt \<noteq> ''%%''"
  shows "errorsEarly a n (c # fmt)"
  using assms(1,2) unfolding errorsEarly_def doScanf_literal [OF assms(3-6)]
  by (auto split: prod.splits option.splits if_splits)

lemma errorsEarly_blank:
  assumes "errorsEarly a n fmt" and "n < length a"
    and "fmtSpace c" and "c \<noteq> NL" and "fmt = [] \<or> \<not> fmtSpace (hd fmt)"
    and "take 2 fmt \<noteq> ''%%''"
  shows "errorsEarly a n (c # fmt)"
  using assms(1,2) unfolding errorsEarly_def doScanf_blank [OF assms(3-6)]
  by (auto split: sum.splits)

lemma doVerb_result:
  assumes "doVerb fmt a n h s = Inr (f, n', h', s')"
    and "hd (snd (snd (parsenum 1 fmt))) \<noteq> CHR ''%''"
  shows "f = verbRest fmt \<and> n' = Suc n"
  using assms
  by (auto simp: doVerb_def verbRest_def split: prod.splits list.splits if_splits sum.splits)

lemma errorsEarly_verb:
  assumes "errorsEarly a (Suc n) (verbRest fmt)" and "n < length a"
    and "fmt \<noteq> []" and "hd fmt \<noteq> CHR ''%''"
    and "hd (snd (snd (parsenum 1 fmt))) \<noteq> CHR ''%''"
  shows "errorsEarly a n (CHR ''%'' # fmt)"
  using assms(1,2) doVerb_result [OF _ assms(5)]
  unfolding errorsEarly_def doScanf_verb [OF assms(3,4)]
  by (fastforce split: sum.splits prod.splits)

lemmas errorsEarly_M = errorsEarly_literal [where c = "CHR ''M''"]
lemmas errorsEarly_E = errorsEarly_literal [where c = "CHR ''E''"]
lemmas errorsEarly_comma = errorsEarly_literal [where c = "CHR '',''"]
lemmas errorsEarly_space = errorsEarly_blank [where c = "CHR '' ''"]

lemma MEFormat_errorsEarly: "errorsEarly (take 16 StructFieldPointers) 0 MEFormat"
  unfolding MEFormat_def
  by (rule errorsEarly_M errorsEarly_E errorsEarly_comma errorsEarly_space errorsEarly_verb
        errorsEarly_Nil;
      (simp add: StructFieldPointers_def fmtSpace_def isSpace_def verbRest_def parsenum_def
        isDigit_def digitVal_def tooLarge_def)?)+

lemma Sscanf_error_early:
  assumes "Sscanf line MEFormat (take 16 StructFieldPointers) m = ((k, Some e), m')"
  shows "k < 16"
proof -
  have len: "length (take 16 StructFieldPointers) = 16"
    by (simp add: StructFieldPointers_def)
  from MEFormat_errorsEarly assms have "k < length (take 16 StructFieldPointers)"
    unfolding errorsEarly_def Sscanf_def by blast
  with len show ?thesis by simp
qed

lemma doVerb_count:
  "doVerb fmt a n h s = Inr (fmt', n', h', s') \<Longrightarrow> n \<le> length a \<Longrightarrow> n' \<le> length a \<and> n \<le> n'"
  by (auto simp: doVerb_def split: prod.splits list.splits if_splits sum.splits)

lemma doScanf_no_error:
  "doScanf fmt a n h s = ((k, None), h') \<Longrightarrow> n \<le> length a \<Longrightarrow> k = length a"
proof (induction fmt a n h s rule: doScanf.induct)
  case (1 fmt a n h s)
  note IH = "1.IH" and prems = "1.prems"
  show ?case
  proof (cases "fmt = []")
    case True
    with prems show ?thesis
      by (subst (asm) doScanf.simps) (simp add: doScanfEnd_def split: if_splits)
  next
    case False
    show ?thesis
    proof (cases "advance fmt s")
      case (Inl e)
      with False prems show ?thesis
        by (subst (asm) doScanf.simps) simp
    next
      case (Inr p)
      obtain w s1 where p: "p = (w, s1)" by (cases p)
      show ?thesis
      proof (cases "0 < w")
        case True
        with False Inr p prems(1) have "doScanf (drop (nat w) fmt) a n h s1 = ((k, None), h')"
          by (subst (asm) doScanf.simps) simp
        then show ?thesis
          using IH(1) [OF False Inr p [symmetric] True] prems(2) by simp
      next
        case w0: False
        show ?thesis
        proof (cases "hd fmt \<noteq> CHR ''%''")
          case True
          with False Inr p w0 prems show ?thesis
            by (subst (asm) doScanf.simps) (simp add: doScanfEnd_def split: if_splits)
        next
          case pc: False
          show ?thesis
          proof (cases "doVerb (tl fmt) a n h s1")
            case (Inl e)
            with False Inr p w0 pc prems show ?thesis
              by (subst (asm) doScanf.simps) simp
          next
            case v: (Inr q)
            obtain fmt3 n' h2 s2 where q: "q = (fmt3, n', h2, s2)" by (cases q)
            from False Inr p w0 pc v q prems(1)
            have "doScanf fmt3 a n' h2 s2 = ((k, None), h')"
              by (subst (asm) doScanf.simps) simp
            moreover have "n' \<le> length a"
              using doVerb_count [OF v [unfolded q] prems(2)] by simp
            ultimately show ?thesis
              using IH(2) [OF False Inr p [symmetric] w0 pc v q [symmetric] refl refl]
              by simp
          qed
        qed
      qed
    qed
  qed
qed

lemma Sscanf_no_error:
  assumes "Sscanf line fmt a m = ((k, None), m')"
  shows "k = length a"
  using assms doScanf_no_error [of fmt a 0 m "newScanState line" k m'] by (simp add: Sscanf_def)

text \<open>
  Claim C5, amended. \<^verbatim>\<open>ReadChannelLine\<close> fails exactly when the line is not the empty
  marker and \<^verbatim>\<open>Sscanf\<close> has filled fewer than 16 operands; the error is then the one that
  carries the line. \<^verbatim>\<open>Sscanf\<close> returns an error whenever it leaves an operand unfilled,
  so the test \<^verbatim>\<open>items < 15\<close> never decides, and a line without its 16th field fails.
\<close>

theorem ReadChannelLine_failure:
  "snd (ReadChannelLine m line) =
     (if line \<noteq> ''N'' @ [CR] \<and>
         fst (fst (Sscanf line MEFormat (take 16 StructFieldPointers) m)) < 16
      then Some (MalformedChannelLine line) else None)"
proof (cases "line = ''N'' @ [CR]")
  case True
  then show ?thesis
    by (simp add: ReadChannelLine_def)
next
  case False
  obtain k err m' where sc: "Sscanf line MEFormat (take 16 StructFieldPointers) m = ((k, err), m')"
    by (metis prod.collapse)
  have len: "length (take 16 StructFieldPointers) = 16"
    by (simp add: StructFieldPointers_def)
  show ?thesis
  proof (cases err)
    case None
    with Sscanf_no_error [of line MEFormat "take 16 StructFieldPointers" m k m'] sc len
    have "k = 16" by simp
    with None sc False show ?thesis
      by (simp add: ReadChannelLine_def)
  next
    case (Some e)
    with Sscanf_error_early [of line m k e m'] sc have "k < 16" by simp
    with Some sc False show ?thesis
      by (simp add: ReadChannelLine_def)
  qed
qed



lemma shortLine_scan:
  "Sscanf shortLine MEFormat (take 16 StructFieldPointers) zeroEntry =
     ((15, Some ErrInputDoesNotMatchFormat),
      zeroEntry\<lparr>Number := 1, RXFrequency := 146520000, TXFrequency := 146520000\<rparr>)"
  by (simp add: shortLine_def scan_eval MEFormat_def StructFieldPointers_def zeroEntry_def)

text \<open>
  Claim C5, as stated, fails: on the line of 15 fields \<^verbatim>\<open>Sscanf\<close> fills 15 operands and
  returns an error, and \<^verbatim>\<open>ReadChannelLine\<close> fails.
\<close>

theorem absent_lockout_counterexample:
  "fst (Sscanf shortLine MEFormat (take 16 StructFieldPointers) zeroEntry) =
     (15, Some ErrInputDoesNotMatchFormat) \<and>
   snd (ReadChannelLine zeroEntry shortLine) = Some (MalformedChannelLine shortLine)"
proof -
  have "shortLine \<noteq> ''N'' @ [CR]"
    by (simp add: shortLine_def)
  then show ?thesis
    by (simp add: ReadChannelLine_def shortLine_scan)
qed

end
